theory Spec2Isabelle
  imports Main
begin

section \<open>Data model (main.go, lines 15-27)\<close>

text \<open>
  \<^verbatim>\<open>VideoMapping\<close> is the job record. Its \<^verbatim>\<open>Status\<close> is a Go string; the code compares
  it with the literals "processing", "completed" and "failed".
\<close>

record VideoMapping =
  OriginalName :: string
  TranscodeDir :: string
  Status :: string

text \<open>
  The registry is \<^verbatim>\<open>map[string]*VideoMapping\<close>: the values are pointers. A pointer is
  \<open>None\<close> (nil) or the address of an object in the heap; the heap is the list of all
  objects allocated so far, an address being an index into it. Go has no dangling
  pointers: every address the program holds is below the length of the heap.
\<close>

type_synonym ptr = "nat option"

datatype os_error = ErrNotExist | ErrPermission | ErrIO

datatype json_error = SyntaxError | UnmarshalTypeError | UnsupportedValue

datatype error = OsError os_error | JsonError json_error

datatype exec_error = ExitError int | LaunchError

datatype log_entry =
    LogLoadWarning error
  | LogStarting string
  | LogFailed string exec_error string
  | LogCompleted string

text \<open>
  The process state: the global \<^verbatim>\<open>state\<close> (\<open>mappings\<close>, \<open>filePath\<close>, and \<open>mu_held\<close>
  for the exclusive side of \<^verbatim>\<open>mu\<close>), the objects the map's pointers refer to, the files
  on disk (path to content) and the lines written by \<^verbatim>\<open>log.Printf\<close>. \<open>map_nil\<close> says
  that the map itself is nil, as it is after the decoder has read the document
  \<^verbatim>\<open>null\<close>: a nil map reads as an empty one (\<open>mappings\<close> is then empty) and a store
  into it panics.
\<close>

record world =
  mappings :: "string \<rightharpoonup> ptr"
  map_nil :: bool
  heap :: "VideoMapping list"
  filePath :: string
  mu_held :: bool
  files :: "string \<rightharpoonup> string"
  logs :: "log_entry list"

text \<open>
  Library functions of Go that the program calls and whose code is not part of the
  repository are parameters: \<^verbatim>\<open>filepath.Join\<close>, \<^verbatim>\<open>json.Marshal\<close> on the registry (it
  sees, for each key, nil or the fields of the object pointed to), and
  \<^verbatim>\<open>json.Unmarshal\<close> into the registry. The decoder either reads the document
  \<^verbatim>\<open>null\<close>, which sets the map itself to nil, or returns the members it stores, in the
  order it stores them (\<open>None\<close> for a null member, which becomes a nil pointer); with
  that comes the error it reports, if any.
\<close>

datatype decoded = Null | Members "(string \<times> VideoMapping option) list"

record lib =
  Join :: "string \<Rightarrow> string \<Rightarrow> string"
  Marshal :: "(string \<rightharpoonup> VideoMapping option) \<Rightarrow> json_error + string"
  Unmarshal :: "string \<Rightarrow> json_error option \<times> decoded"

record request =
  Method :: string
  URLPath :: string
  QueryVideo :: string

datatype response =
    HttpError nat string
  | JsonOK "(string \<times> string) list"
  | HandlerPanic

datatype write_outcome = WriteOk | WriteFail os_error "string option"

section \<open>Library functions with a fixed meaning\<close>

definition os_IsNotExist :: "os_error option \<Rightarrow> bool" where
  "os_IsNotExist err = (err = Some ErrNotExist)"

definition strings_HasSuffix :: "string \<Rightarrow> string \<Rightarrow> bool" where
  "strings_HasSuffix s suffix =
     (length suffix \<le> length s \<and> drop (length s - length suffix) s = suffix)"

definition strings_TrimSuffix :: "string \<Rightarrow> string \<Rightarrow> string" where
  "strings_TrimSuffix s suffix =
     (if strings_HasSuffix s suffix then take (length s - length suffix) s else s)"

definition strings_HasPrefix :: "string \<Rightarrow> string \<Rightarrow> bool" where
  "strings_HasPrefix s prefix =
     (length prefix \<le> length s \<and> take (length prefix) s = prefix)"

definition strings_TrimPrefix :: "string \<Rightarrow> string \<Rightarrow> string" where
  "strings_TrimPrefix s prefix =
     (if strings_HasPrefix s prefix then drop (length prefix) s else s)"

text \<open>
  \<^verbatim>\<open>filepath.Ext\<close> scans the path from its end up to the last separator and returns the
  suffix that starts at the first dot it meets, or the empty string.
\<close>

fun ext_scan :: "string \<Rightarrow> string \<Rightarrow> string" where
  "ext_scan [] acc = []"
| "ext_scan (c # rest) acc =
     (if c = CHR ''/'' then []
      else if c = CHR ''.'' then c # acc
      else ext_scan rest (c # acc))"

definition filepath_Ext :: "string \<Rightarrow> string" where
  "filepath_Ext path = ext_scan (rev path) []"

definition stream_url :: "string \<Rightarrow> string" where
  "stream_url dir = ''/hls/'' @ dir @ ''/master.m3u8''"

section \<open>Registry access\<close>

definition deref :: "VideoMapping list \<Rightarrow> ptr \<Rightarrow> VideoMapping option" where
  "deref h p = (case p of None \<Rightarrow> None
                | Some a \<Rightarrow> if a < length h then Some (h ! a) else None)"

definition snapshot :: "world \<Rightarrow> string \<rightharpoonup> VideoMapping option" where
  "snapshot w = (\<lambda>k. map_option (deref (heap w)) (mappings w k))"

definition record_of :: "world \<Rightarrow> string \<Rightarrow> VideoMapping option" where
  "record_of w k = (case mappings w k of None \<Rightarrow> None | Some p \<Rightarrow> deref (heap w) p)"

definition put_new :: "string \<Rightarrow> VideoMapping \<Rightarrow> world \<Rightarrow> world" where
  "put_new k v w =
     w\<lparr>mappings := (mappings w)(k \<mapsto> Some (length (heap w))), heap := heap w @ [v]\<rparr>"

definition set_status :: "nat \<Rightarrow> string \<Rightarrow> world \<Rightarrow> world" where
  "set_status a st w = w\<lparr>heap := (heap w)[a := (heap w ! a)\<lparr>Status := st\<rparr>]\<rparr>"

section \<open>Persistence (main.go, lines 295-317)\<close>

definition os_WriteFile :: "write_outcome \<Rightarrow> string \<Rightarrow> string \<Rightarrow> world \<Rightarrow> error option \<times> world" where
  "os_WriteFile wo path data w =
     (case wo of
        WriteOk \<Rightarrow> (None, w\<lparr>files := (files w)(path \<mapsto> data)\<rparr>)
      | WriteFail e residue \<Rightarrow> (Some (OsError e), w\<lparr>files := (files w)(path := residue)\<rparr>))"

definition os_ReadFile :: "os_error option \<Rightarrow> string \<Rightarrow> world \<Rightarrow> os_error + string" where
  "os_ReadFile fault path w =
     (case files w path of
        None \<Rightarrow> Inl ErrNotExist
      | Some data \<Rightarrow> (case fault of Some e \<Rightarrow> Inl e | None \<Rightarrow> Inr data))"

definition save :: "lib \<Rightarrow> write_outcome \<Rightarrow> world \<Rightarrow> error option \<times> world" where
  "save L wo w =
     (case Marshal L (snapshot w) of
        Inl e \<Rightarrow> (Some (JsonError e), w)
      | Inr data \<Rightarrow> os_WriteFile wo (filePath w) data w)"

fun store_member :: "string \<times> VideoMapping option \<Rightarrow> world \<Rightarrow> world" where
  "store_member (k, None) w = w\<lparr>mappings := (mappings w)(k \<mapsto> None)\<rparr>"
| "store_member (k, Some v) w = put_new k v w"

text \<open>
  \<^verbatim>\<open>load\<close> hands the live map to the decoder (line 307). The document \<^verbatim>\<open>null\<close> sets
  the map to nil; any other document is decoded member by member into the map, which
  the decoder allocates first if it is nil. Nothing resets the map when the decoder
  reports an error.
\<close>

definition load :: "lib \<Rightarrow> os_error option \<Rightarrow> world \<Rightarrow> error option \<times> world" where
  "load L fault w =
     (case os_ReadFile fault (filePath w) w of
        Inl e \<Rightarrow> if os_IsNotExist (Some e) then (None, w) else (Some (OsError e), w)
      | Inr data \<Rightarrow>
          (case Unmarshal L data of
             (err, Null) \<Rightarrow>
               (map_option JsonError err, w\<lparr>mappings := Map.empty, map_nil := True\<rparr>)
           | (err, Members members) \<Rightarrow>
               (map_option JsonError err,
                fold store_member members (w\<lparr>map_nil := False\<rparr>))))"

text \<open>The part of \<^verbatim>\<open>main\<close> that runs before the server starts (lines 29-39).\<close>

definition fresh_world :: "(string \<rightharpoonup> string) \<Rightarrow> world" where
  "fresh_world disk =
     \<lparr>mappings = Map.empty, map_nil = False, heap = [],
      filePath = ''transcode_mappings.json'', mu_held = False, files = disk, logs = []\<rparr>"

definition main_init :: "lib \<Rightarrow> os_error option \<Rightarrow> (string \<rightharpoonup> string) \<Rightarrow> world" where
  "main_init L fault disk =
     (case load L fault (fresh_world disk) of
        (None, w1) \<Rightarrow> w1
      | (Some err, w1) \<Rightarrow> w1\<lparr>logs := logs w1 @ [LogLoadWarning err]\<rparr>)"

section \<open>Request handlers and the runner, run without interference\<close>

text \<open>
  A handler returns its response, the process state it leaves and the goroutines it
  started (the arguments of each \<^verbatim>\<open>go transcode(...)\<close>). \<open>stat\<close> is the answer of
  \<^verbatim>\<open>os.Stat\<close> for a path and \<open>wo\<close> the outcome of the write inside \<^verbatim>\<open>save\<close>.
  \<^verbatim>\<open>os.MkdirAll\<close> only touches the output tree, which the model does not hold, and its
  result is dropped by the code. The store at line 205 panics when the map is nil; it
  stands between \<^verbatim>\<open>Lock\<close> and \<^verbatim>\<open>Unlock\<close> with no deferred unlock, so the lock stays
  held.
\<close>

definition new_mapping :: "string \<Rightarrow> VideoMapping" where
  "new_mapping videoName =
     \<lparr>OriginalName = videoName,
      TranscodeDir = strings_TrimSuffix videoName (filepath_Ext videoName),
      Status = ''processing''\<rparr>"

definition start_job :: "lib \<Rightarrow> write_outcome \<Rightarrow> string \<Rightarrow> world
    \<Rightarrow> response \<times> world \<times> (string \<times> string \<times> string) list" where
  "start_job L wo videoName w =
     (let videoPath = Join L ''videos'' videoName;
          transcodeDir = strings_TrimSuffix videoName (filepath_Ext videoName);
          transcodeFullPath = Join L ''transcoded'' transcodeDir
      in if map_nil w then (HandlerPanic, w\<lparr>mu_held := True\<rparr>, [])
         else
           (let w1 = put_new videoName (new_mapping videoName) w;
                w2 = snd (save L wo w1)
            in (JsonOK [(''message'', ''Transcoding started''),
                        (''transcode_dir'', transcodeDir),
                        (''status'', ''processing'')],
                w2,
                [(videoPath, transcodeFullPath, videoName)])))"

definition handleTranscode :: "lib \<Rightarrow> (string \<Rightarrow> os_error option) \<Rightarrow> write_outcome \<Rightarrow> request
    \<Rightarrow> world \<Rightarrow> response \<times> world \<times> (string \<times> string \<times> string) list" where
  "handleTranscode L stat wo r w =
     (if Method r \<noteq> ''POST'' then (HttpError 405 ''Method not allowed'', w, [])
      else if QueryVideo r = [] then (HttpError 400 ''Missing 'video' parameter'', w, [])
      else if os_IsNotExist (stat (Join L ''videos'' (QueryVideo r)))
        then (HttpError 404 ''Video not found'', w, [])
      else
        (case mappings w (QueryVideo r) of
           None \<Rightarrow> start_job L wo (QueryVideo r) w
         | Some p \<Rightarrow>
             (case deref (heap w) p of
                None \<Rightarrow> (HandlerPanic, w, [])
              | Some mapping \<Rightarrow>
                  if Status mapping = ''completed'' then
                    (JsonOK [(''message'', ''Video already transcoded''),
                             (''transcode_dir'', TranscodeDir mapping),
                             (''stream_url'', stream_url (TranscodeDir mapping))], w, [])
                  else if Status mapping = ''processing'' then
                    (JsonOK [(''message'', ''Video is currently being transcoded''),
                             (''status'', ''processing'')], w, [])
                  else start_job L wo (QueryVideo r) w)))"

definition handleStatus :: "request \<Rightarrow> world \<Rightarrow> response \<times> world" where
  "handleStatus r w =
     (let videoName = strings_TrimPrefix (URLPath r) ''/api/status/'' in
      if videoName = [] then (HttpError 400 ''Missing video name'', w)
      else
        (case mappings w videoName of
           None \<Rightarrow> (HttpError 404 ''Video not found'', w)
         | Some p \<Rightarrow>
             (case deref (heap w) p of
                None \<Rightarrow> (HandlerPanic, w)
              | Some mapping \<Rightarrow>
                  (JsonOK ([(''video'', OriginalName mapping),
                            (''transcode_dir'', TranscodeDir mapping),
                            (''status'', Status mapping)]
                           @ (if Status mapping = ''completed''
                              then [(''stream_url'', stream_url (TranscodeDir mapping))]
                              else [])), w))))"

text \<open>
  The runner. \<open>enc\<close> is what \<^verbatim>\<open>cmd.CombinedOutput()\<close> returns: the encoder's output and
  its error (\<open>None\<close> for exit status 0). Indexing the map at a missing key yields a nil
  pointer, and writing through it panics: the result is then \<open>None\<close>.
\<close>

definition transcode :: "lib \<Rightarrow> string \<times> exec_error option \<Rightarrow> write_outcome \<Rightarrow> string
    \<Rightarrow> world \<Rightarrow> world option" where
  "transcode L enc wo videoName w =
     (let w0 = w\<lparr>logs := logs w @ [LogStarting videoName]\<rparr>;
          entry = (case mappings w0 videoName of None \<Rightarrow> None | Some p \<Rightarrow> p)
      in case snd enc of
           Some err \<Rightarrow>
             (let w1 = w0\<lparr>logs := logs w0 @ [LogFailed videoName err (fst enc)]\<rparr>
              in case entry of
                   None \<Rightarrow> None
                 | Some a \<Rightarrow> Some (snd (save L wo (set_status a ''failed'' w1))))
         | None \<Rightarrow>
             (let w1 = w0\<lparr>logs := logs w0 @ [LogCompleted videoName]\<rparr>
              in case entry of
                   None \<Rightarrow> None
                 | Some a \<Rightarrow> Some (snd (save L wo (set_status a ''completed'' w1)))))"

section \<open>Interleaved execution\<close>

text \<open>
  Each request runs in its own goroutine and each accepted submission starts one more.
  A goroutine is modelled by the program point it stands at, with its local variables.
  One step is one access to the shared state: a whole \<^verbatim>\<open>RLock\<close> ... \<^verbatim>\<open>RUnlock\<close> section
  (the code's read sections only look one key up), one statement of a \<^verbatim>\<open>Lock\<close> ...
  \<^verbatim>\<open>Unlock\<close> section, or one read of a field through a pointer that the handler took
  out of the map before it released the read lock. A step that needs the lock while
  another goroutine holds it exclusively is not enabled. \<open>Panicked_in_lock\<close> is a
  handler that panicked at the store of line 205: its request gets no answer and the
  lock it took is never released.
\<close>

datatype thread =
    HT_start request
  | HT_read string
  | HT_check_completed string "ptr option"
  | HT_check_processing string "ptr option"
  | HT_lock string
  | HT_put string
  | HT_save string
  | HT_unlock string
  | HT_go string
  | HS_start request
  | HS_read string
  | HS_fields ptr
  | HS_check_completed ptr "(string \<times> string) list"
  | TR_start string
  | TR_lock string "string \<times> exec_error option"
  | TR_update string "string \<times> exec_error option"
  | TR_save string
  | TR_unlock string
  | Done response
  | Panicked_in_lock
  | Finished
  | Crashed

text \<open>What the environment answers during one step.\<close>

record answers =
  stat_answer :: "string \<Rightarrow> os_error option"
  write_answer :: write_outcome
  enc_answer :: "string \<times> exec_error option"

fun step_thread :: "lib \<Rightarrow> answers \<Rightarrow> world \<Rightarrow> thread \<Rightarrow> (world \<times> thread \<times> thread list) option" where
  "step_thread L orc w (HT_start r) =
     (if Method r \<noteq> ''POST'' then Some (w, Done (HttpError 405 ''Method not allowed''), [])
      else if QueryVideo r = [] then Some (w, Done (HttpError 400 ''Missing 'video' parameter''), [])
      else if os_IsNotExist (stat_answer orc (Join L ''videos'' (QueryVideo r)))
        then Some (w, Done (HttpError 404 ''Video not found''), [])
      else Some (w, HT_read (QueryVideo r), []))"
| "step_thread L orc w (HT_read k) =
     (if mu_held w then None else Some (w, HT_check_completed k (mappings w k), []))"
| "step_thread L orc w (HT_check_completed k e) =
     (case e of
        None \<Rightarrow> Some (w, HT_check_processing k e, [])
      | Some p \<Rightarrow>
          (case deref (heap w) p of
             None \<Rightarrow> Some (w, Done HandlerPanic, [])
           | Some mapping \<Rightarrow>
               if Status mapping = ''completed'' then
                 Some (w, Done (JsonOK [(''message'', ''Video already transcoded''),
                                        (''transcode_dir'', TranscodeDir mapping),
                                        (''stream_url'', stream_url (TranscodeDir mapping))]), [])
               else Some (w, HT_check_processing k e, [])))"
| "step_thread L orc w (HT_check_processing k e) =
     (case e of
        None \<Rightarrow> Some (w, HT_lock k, [])
      | Some p \<Rightarrow>
          (case deref (heap w) p of
             None \<Rightarrow> Some (w, Done HandlerPanic, [])
           | Some mapping \<Rightarrow>
               if Status mapping = ''processing'' then
                 Some (w, Done (JsonOK [(''message'', ''Video is currently being transcoded''),
                                        (''status'', ''processing'')]), [])
               else Some (w, HT_lock k, [])))"
| "step_thread L orc w (HT_lock k) =
     (if mu_held w then None else Some (w\<lparr>mu_held := True\<rparr>, HT_put k, []))"
| "step_thread L orc w (HT_put k) =
     (if map_nil w then Some (w, Panicked_in_lock, [])
      else Some (put_new k (new_mapping k) w, HT_save k, []))"
| "step_thread L orc w (HT_save k) = Some (snd (save L (write_answer orc) w), HT_unlock k, [])"
| "step_thread L orc w (HT_unlock k) = Some (w\<lparr>mu_held := False\<rparr>, HT_go k, [])"
| "step_thread L orc w (HT_go k) =
     Some (w, Done (JsonOK [(''message'', ''Transcoding started''),
                            (''transcode_dir'', strings_TrimSuffix k (filepath_Ext k)),
                            (''status'', ''processing'')]),
           [TR_start k])"
| "step_thread L orc w (HS_start r) =
     (let videoName = strings_TrimPrefix (URLPath r) ''/api/status/'' in
      if videoName = [] then Some (w, Done (HttpError 400 ''Missing video name''), [])
      else Some (w, HS_read videoName, []))"
| "step_thread L orc w (HS_read k) =
     (if mu_held w then None
      else case mappings w k of
             None \<Rightarrow> Some (w, Done (HttpError 404 ''Video not found''), [])
           | Some p \<Rightarrow> Some (w, HS_fields p, []))"
| "step_thread L orc w (HS_fields p) =
     (case deref (heap w) p of
        None \<Rightarrow> Some (w, Done HandlerPanic, [])
      | Some mapping \<Rightarrow>
          Some (w, HS_check_completed p [(''video'', OriginalName mapping),
                                         (''transcode_dir'', TranscodeDir mapping),
                                         (''status'', Status mapping)], []))"
| "step_thread L orc w (HS_check_completed p resp) =
     (case deref (heap w) p of
        None \<Rightarrow> Some (w, Done HandlerPanic, [])
      | Some mapping \<Rightarrow>
          Some (w, Done (JsonOK (resp @ (if Status mapping = ''completed''
                                         then [(''stream_url'', stream_url (TranscodeDir mapping))]
                                         else []))), []))"
| "step_thread L orc w (TR_start k) =
     Some (w\<lparr>logs := logs w @ [LogStarting k]\<rparr>, TR_lock k (enc_answer orc), [])"
| "step_thread L orc w (TR_lock k enc) =
     (if mu_held w then None else Some (w\<lparr>mu_held := True\<rparr>, TR_update k enc, []))"
| "step_thread L orc w (TR_update k enc) =
     (let w1 = w\<lparr>logs := logs w @ [case snd enc of
                                       Some err \<Rightarrow> LogFailed k err (fst enc)
                                     | None \<Rightarrow> LogCompleted k]\<rparr>
      in case (case mappings w k of None \<Rightarrow> None | Some p \<Rightarrow> p) of
           None \<Rightarrow> Some (w1\<lparr>mu_held := False\<rparr>, Crashed, [])
         | Some a \<Rightarrow>
             Some (set_status a (if snd enc = None then ''completed'' else ''failed'') w1,
                   TR_save k, []))"
| "step_thread L orc w (TR_save k) = Some (snd (save L (write_answer orc) w), TR_unlock k, [])"
| "step_thread L orc w (TR_unlock k) = Some (w\<lparr>mu_held := False\<rparr>, Finished, [])"
| "step_thread L orc w (Done resp) = None"
| "step_thread L orc w Panicked_in_lock = None"
| "step_thread L orc w Finished = None"
| "step_thread L orc w Crashed = None"

text \<open>A goroutine run on its own, for at most \<open>n\<close> steps under one set of answers.\<close>

fun run_thread :: "lib \<Rightarrow> answers \<Rightarrow> nat \<Rightarrow> world \<times> thread \<times> thread list \<Rightarrow> world \<times> thread \<times> thread list" where
  "run_thread L orc 0 c = c"
| "run_thread L orc (Suc n) (w, t, spawned) =
     (case step_thread L orc w t of
        None \<Rightarrow> (w, t, spawned)
      | Some (w', t', new) \<Rightarrow> run_thread L orc n (w', t', spawned @ new))"

text \<open>
  The whole process: the shared state and the goroutines. An event is the arrival of a
  request or one step of the goroutine with the given index.
\<close>

record sys =
  shared :: world
  threads :: "thread list"

datatype event = Submit request | Query request | Step nat answers

fun exec :: "lib \<Rightarrow> event \<Rightarrow> sys \<Rightarrow> sys option" where
  "exec L (Submit r) s = Some (s\<lparr>threads := threads s @ [HT_start r]\<rparr>)"
| "exec L (Query r) s = Some (s\<lparr>threads := threads s @ [HS_start r]\<rparr>)"
| "exec L (Step i orc) s =
     (if i < length (threads s) then
        (case step_thread L orc (shared s) (threads s ! i) of
           None \<Rightarrow> None
         | Some (w', t', new) \<Rightarrow> Some \<lparr>shared = w', threads = (threads s)[i := t'] @ new\<rparr>)
      else None)"

fun run :: "lib \<Rightarrow> event list \<Rightarrow> sys \<Rightarrow> sys option" where
  "run L [] s = Some s"
| "run L (e # es) s = (case exec L e s of None \<Rightarrow> None | Some s' \<Rightarrow> run L es s')"

definition boot :: "lib \<Rightarrow> os_error option \<Rightarrow> (string \<rightharpoonup> string) \<Rightarrow> sys" where
  "boot L fault disk = \<lparr>shared = main_init L fault disk, threads = []\<rparr>"

fun runner_name :: "thread \<Rightarrow> string option" where
  "runner_name (TR_start k) = Some k"
| "runner_name (TR_lock k enc) = Some k"
| "runner_name (TR_update k enc) = Some k"
| "runner_name (TR_save k) = Some k"
| "runner_name (TR_unlock k) = Some k"
| "runner_name t = None"

definition active_runners :: "sys \<Rightarrow> string \<Rightarrow> nat" where
  "active_runners s k = length (filter (\<lambda>t. runner_name t = Some k) (threads s))"

section \<open>Properties of states and steps\<close>

text \<open>
  What one state keeps of an earlier one: every object is still there with the name and
  the directory it had, its status is the one it had or a final one, and every key of
  the registry is still a key.
\<close>

definition keeps_records :: "world \<Rightarrow> world \<Rightarrow> bool" where
  "keeps_records w w' \<longleftrightarrow>
     length (heap w) \<le> length (heap w')
     \<and> (\<forall>a < length (heap w).
           OriginalName (heap w' ! a) = OriginalName (heap w ! a)
           \<and> TranscodeDir (heap w' ! a) = TranscodeDir (heap w ! a)
           \<and> (Status (heap w' ! a) = Status (heap w ! a)
                \<or> Status (heap w' ! a) = ''completed''
                \<or> Status (heap w' ! a) = ''failed''))
     \<and> (\<forall>k. mappings w k \<noteq> None \<longrightarrow> mappings w' k \<noteq> None)"

text \<open>
  The key whose map entry a goroutine relies on: a handler from the moment it has stored
  its record, and the runner it starts, up to the runner's write.
\<close>

fun needs_entry :: "thread \<Rightarrow> string option" where
  "needs_entry (HT_save k) = Some k"
| "needs_entry (HT_unlock k) = Some k"
| "needs_entry (HT_go k) = Some k"
| "needs_entry (TR_start k) = Some k"
| "needs_entry (TR_lock k enc) = Some k"
| "needs_entry (TR_update k enc) = Some k"
| "needs_entry t = None"

definition has_entry :: "world \<Rightarrow> string \<Rightarrow> bool" where
  "has_entry w k = (case mappings w k of Some (Some a) \<Rightarrow> a < length (heap w) | _ \<Rightarrow> False)"

definition thread_ok :: "world \<Rightarrow> thread \<Rightarrow> bool" where
  "thread_ok w t =
     (t \<noteq> Crashed \<and> (case needs_entry t of None \<Rightarrow> True | Some k \<Rightarrow> has_entry w k))"

definition all_ok :: "sys \<Rightarrow> bool" where
  "all_ok s = list_all (thread_ok (shared s)) (threads s)"

text \<open>
  The program points between \<^verbatim>\<open>Lock\<close> and \<^verbatim>\<open>Unlock\<close>: the handler's at lines 205-211
  and the runner's at lines 284-293; a handler that panicked at line 205 stays there.
\<close>

fun in_write_section :: "thread \<Rightarrow> bool" where
  "in_write_section (HT_put k) = True"
| "in_write_section (HT_save k) = True"
| "in_write_section (HT_unlock k) = True"
| "in_write_section (TR_update k enc) = True"
| "in_write_section (TR_save k) = True"
| "in_write_section (TR_unlock k) = True"
| "in_write_section Panicked_in_lock = True"
| "in_write_section t = False"

definition writers :: "sys \<Rightarrow> nat" where
  "writers s = length (filter in_write_section (threads s))"

text \<open>
  Every pointer in the registry leads to a record that carries its key as its name
  and the stem of the key as its directory.
\<close>

definition dirs_are_stems :: "world \<Rightarrow> bool" where
  "dirs_are_stems w \<longleftrightarrow>
     (\<forall>k a. mappings w k = Some (Some a) \<longrightarrow>
        a < length (heap w)
        \<and> OriginalName (heap w ! a) = k
        \<and> TranscodeDir (heap w ! a) = strings_TrimSuffix k (filepath_Ext k))"

section \<open>Example inputs\<close>

text \<open>
  Concrete library functions and inputs at which the theorems below are evaluated: a
  \<open>Join\<close> that puts a slash between its arguments, and an encoder and decoder for
  registries whose only job is that of \<^verbatim>\<open>a.mp4\<close>, the document being its status.
\<close>

definition example_record :: VideoMapping where
  "example_record = \<lparr>OriginalName = ''a.mp4'', TranscodeDir = ''a'', Status = ''completed''\<rparr>"

definition example_lib :: lib where
  "example_lib =
     \<lparr>Join = (\<lambda>dir name. dir @ ''/'' @ name),
      Marshal = (\<lambda>m. case m ''a.mp4'' of
                         Some (Some v) \<Rightarrow> Inr (''a.mp4 '' @ Status v)
                       | _ \<Rightarrow> Inr ''empty''),
      Unmarshal = (\<lambda>data.
         if data = ''empty'' then (None, Members [])
         else if data = ''null'' then (None, Null)
         else if take 6 data = ''a.mp4 '' then
           (None, Members [(''a.mp4'', Some \<lparr>OriginalName = ''a.mp4'', TranscodeDir = ''a'',
                                              Status = drop 6 data\<rparr>)])
         else (Some SyntaxError, Members []))\<rparr>"

definition stat_found :: "string \<Rightarrow> os_error option" where
  "stat_found path = None"

definition stat_denied :: "string \<Rightarrow> os_error option" where
  "stat_denied path = Some ErrPermission"

definition post_a :: request where
  "post_a = \<lparr>Method = ''POST'', URLPath = ''/api/transcode'', QueryVideo = ''a.mp4''\<rparr>"

definition status_a :: request where
  "status_a = \<lparr>Method = ''GET'', URLPath = ''/api/status/a.mp4'', QueryVideo = []\<rparr>"

definition empty_world :: world where
  "empty_world = main_init example_lib None Map.empty"

definition ok :: answers where
  "ok = \<lparr>stat_answer = stat_found, write_answer = WriteOk, enc_answer = ([], None)\<rparr>"

definition enc_fails :: answers where
  "enc_fails = \<lparr>stat_answer = stat_found, write_answer = WriteOk,
                enc_answer = (''Invalid data found'', Some (ExitError 1))\<rparr>"

text \<open>
  Two submissions of \<^verbatim>\<open>a.mp4\<close> arrive together. Both goroutines look the key up before
  either has stored its record, so both go on to create one and to start a runner.
\<close>

definition two_submissions :: "event list" where
  "two_submissions =
     [Submit post_a, Submit post_a,
      Step 0 ok, Step 0 ok, Step 1 ok, Step 1 ok,
      Step 0 ok, Step 0 ok, Step 0 ok, Step 0 ok, Step 0 ok, Step 0 ok, Step 0 ok,
      Step 1 ok, Step 1 ok, Step 1 ok, Step 1 ok, Step 1 ok, Step 1 ok, Step 1 ok]"

text \<open>
  The two runners then finish one after the other, the first with a failing encoder,
  the second with a successful one.
\<close>

definition first_runner_fails :: "event list" where
  "first_runner_fails = [Step 2 enc_fails, Step 2 ok, Step 2 ok, Step 2 ok, Step 2 ok]"

definition second_runner_succeeds :: "event list" where
  "second_runner_succeeds = [Step 3 ok, Step 3 ok, Step 3 ok, Step 3 ok, Step 3 ok]"

text \<open>
  One submission of \<^verbatim>\<open>a.mp4\<close> runs to its answer; then a status query takes the pointer
  out of the map, the runner takes the lock and writes the status, and the query reads
  the fields and answers before the runner has called \<^verbatim>\<open>save\<close>.
\<close>

definition query_during_update :: "event list" where
  "query_during_update =
     [Submit post_a,
      Step 0 ok, Step 0 ok, Step 0 ok, Step 0 ok, Step 0 ok, Step 0 ok, Step 0 ok,
      Step 0 ok, Step 0 ok,
      Query status_a, Step 2 ok, Step 2 ok,
      Step 1 ok, Step 1 ok, Step 1 ok,
      Step 2 ok, Step 2 ok]"

definition processing_world :: world where
  "processing_world = fst (snd (handleTranscode example_lib stat_found WriteOk post_a empty_world))"

definition completed_world :: world where
  "completed_world =
     (case transcode example_lib ([], None) WriteOk ''a.mp4'' processing_world of
        Some w \<Rightarrow> w | None \<Rightarrow> processing_world)"

text \<open>
  A state file whose second member has a number where a record is expected. Go's
  decoder stores the first member, stores an empty record for the second and reports a
  type error at the end ("skips that field and completes the unmarshaling as best it
  can"); \<open>mistyped_lib\<close> is \<open>example_lib\<close> with that answer for this document.
\<close>

definition mistyped_document :: string where
  "mistyped_document = ''a.mp4 completed, b.mp4 5''"

definition mistyped_lib :: lib where
  "mistyped_lib =
     example_lib\<lparr>Unmarshal := (\<lambda>data.
        if data = mistyped_document then
          (Some UnmarshalTypeError,
           Members [(''a.mp4'', Some example_record),
                    (''b.mp4'', Some \<lparr>OriginalName = [], TranscodeDir = [], Status = []\<rparr>)])
        else Unmarshal example_lib data)\<rparr>"

definition mistyped_disk :: "string \<rightharpoonup> string" where
  "mistyped_disk = [''transcode_mappings.json'' \<mapsto> mistyped_document]"

text \<open>State files for the start-up cases: one that cannot be read, one that is cut short.\<close>

definition unreadable_disk :: "string \<rightharpoonup> string" where
  "unreadable_disk = [''transcode_mappings.json'' \<mapsto> ''a.mp4 completed'']"

definition garbled_disk :: "string \<rightharpoonup> string" where
  "garbled_disk = [''transcode_mappings.json'' \<mapsto> ''a.mp'']"

definition example_boot :: sys where
  "example_boot = boot example_lib None Map.empty"

text \<open>A state file left by a process that stopped while \<^verbatim>\<open>a.mp4\<close> was being transcoded.\<close>

definition interrupted_disk :: "string \<rightharpoonup> string" where
  "interrupted_disk = [''transcode_mappings.json'' \<mapsto> ''a.mp4 processing'']"

text \<open>
  A second submission of \<^verbatim>\<open>a.mp4\<close> arrives while the runner of the first is still
  encoding. It takes the pointer out of the map and finds at line 181 that the status
  is not \<open>completed\<close>. Then the runner finishes. Then the submission goes on from
  line 190.
\<close>

definition second_submission_first_test :: "event list" where
  "second_submission_first_test =
     [Submit post_a,
      Step 0 ok, Step 0 ok, Step 0 ok, Step 0 ok, Step 0 ok, Step 0 ok, Step 0 ok,
      Step 0 ok, Step 0 ok,
      Submit post_a, Step 2 ok, Step 2 ok, Step 2 ok]"

definition runner_finishes :: "event list" where
  "runner_finishes = [Step 1 ok, Step 1 ok, Step 1 ok, Step 1 ok, Step 1 ok]"

definition second_submission_goes_on :: "event list" where
  "second_submission_goes_on = [Step 2 ok, Step 2 ok, Step 2 ok, Step 2 ok, Step 2 ok, Step 2 ok]"

text \<open>
  A status query has read the three fields at lines 243-245 when the runner writes the
  status; the query's test at line 248 comes after the write.
\<close>

definition query_around_update :: "event list" where
  "query_around_update =
     [Submit post_a,
      Step 0 ok, Step 0 ok, Step 0 ok, Step 0 ok, Step 0 ok, Step 0 ok, Step 0 ok,
      Step 0 ok, Step 0 ok,
      Query status_a, Step 2 ok, Step 2 ok, Step 2 ok,
      Step 1 ok, Step 1 ok, Step 1 ok,
      Step 2 ok]"

text \<open>A state file that holds the document \<^verbatim>\<open>null\<close>, and a submission run up to its store.\<close>

definition null_disk :: "string \<rightharpoonup> string" where
  "null_disk = [''transcode_mappings.json'' \<mapsto> ''null'']"

definition submission_up_to_store :: "event list" where
  "submission_up_to_store =
     [Submit post_a, Step 0 ok, Step 0 ok, Step 0 ok, Step 0 ok, Step 0 ok, Step 0 ok]"

section \<open>Facts about persistence\<close>

lemma save_mappings [simp]: "mappings (snd (save L wo w)) = mappings w"
  by (simp add: save_def os_WriteFile_def split: sum.splits write_outcome.splits)

lemma save_heap [simp]: "heap (snd (save L wo w)) = heap w"
  by (simp add: save_def os_WriteFile_def split: sum.splits write_outcome.splits)

lemma save_logs [simp]: "logs (snd (save L wo w)) = logs w"
  by (simp add: save_def os_WriteFile_def split: sum.splits write_outcome.splits)

lemma save_filePath [simp]: "filePath (snd (save L wo w)) = filePath w"
  by (simp add: save_def os_WriteFile_def split: sum.splits write_outcome.splits)

lemma save_mu_held [simp]: "mu_held (snd (save L wo w)) = mu_held w"
  by (simp add: save_def os_WriteFile_def split: sum.splits write_outcome.splits)

lemma put_new_mu_held [simp]: "mu_held (put_new k v w) = mu_held w"
  by (simp add: put_new_def)

lemma set_status_mu_held [simp]: "mu_held (set_status a st w) = mu_held w"
  by (simp add: set_status_def)

lemma save_record_of [simp]: "record_of (snd (save L wo w)) k = record_of w k"
  by (simp add: record_of_def split: option.splits)

lemma save_snapshot [simp]: "snapshot (snd (save L wo w)) = snapshot w"
  by (simp add: snapshot_def)

lemma save_WriteOk_files:
  "Marshal L (snapshot w) = Inr data \<Longrightarrow>
   files (snd (save L WriteOk w)) = (files w)(filePath w \<mapsto> data)"
  by (simp add: save_def os_WriteFile_def)

lemma record_of_put_new_same [simp]: "record_of (put_new k v w) k = Some v"
  by (simp add: record_of_def put_new_def deref_def)

lemma mappings_put_new_other [simp]: "k' \<noteq> k \<Longrightarrow> mappings (put_new k v w) k' = mappings w k'"
  by (simp add: put_new_def)

lemma deref_append: "deref h p = Some m \<Longrightarrow> deref (h @ [v]) p = Some m"
  by (auto simp: deref_def nth_append split: option.splits if_splits)

lemma record_of_put_new_other [simp]:
  "k' \<noteq> k \<Longrightarrow> record_of w k' = Some m \<Longrightarrow> record_of (put_new k v w) k' = Some m"
  by (auto simp: record_of_def put_new_def deref_append split: option.splits)

lemma store_member_frame [simp]:
  "logs (store_member x w) = logs w" "files (store_member x w) = files w"
  "filePath (store_member x w) = filePath w" "mu_held (store_member x w) = mu_held w"
  by (cases x; cases "snd x"; simp add: put_new_def)+

lemma fold_store_member_frame [simp]:
  "logs (fold store_member ms w) = logs w" "files (fold store_member ms w) = files w"
  "filePath (fold store_member ms w) = filePath w" "mu_held (fold store_member ms w) = mu_held w"
  by (induction ms arbitrary: w; simp)+

lemma store_member_map_nil:
  "store_member x (w\<lparr>map_nil := b\<rparr>) = (store_member x w)\<lparr>map_nil := b\<rparr>"
  by (cases x; cases "snd x"; simp add: put_new_def)

lemma fold_store_member_map_nil:
  "fold store_member ms (w\<lparr>map_nil := b\<rparr>) = (fold store_member ms w)\<lparr>map_nil := b\<rparr>"
  by (induction ms arbitrary: w) (simp_all add: store_member_map_nil)

lemma snapshot_map_nil [simp]: "snapshot (w\<lparr>map_nil := b\<rparr>) = snapshot w"
  by (simp add: snapshot_def)

lemma store_member_heap: "\<exists>ext. heap (store_member x w) = heap w @ ext"
  by (cases x; cases "snd x"; simp add: put_new_def)

lemma fold_store_member_heap: "\<exists>ext. heap (fold store_member ms w) = heap w @ ext"
proof (induction ms arbitrary: w)
  case Nil
  then show ?case by simp
next
  case (Cons x xs)
  from store_member_heap [of x w] obtain e1 where 1: "heap (store_member x w) = heap w @ e1" by blast
  from Cons [of "store_member x w"] obtain e2
    where 2: "heap (fold store_member xs (store_member x w)) = heap (store_member x w) @ e2" by blast
  from 1 2 show ?case by simp
qed

lemma fold_store_member_absent:
  "k \<notin> fst ` set ms \<Longrightarrow> mappings (fold store_member ms w) k = mappings w k"
proof (induction ms arbitrary: w)
  case Nil
  then show ?case by simp
next
  case (Cons x xs)
  then show ?case by (cases x; cases "snd x"; simp add: put_new_def)
qed

lemma deref_ext: "deref h p = Some v \<Longrightarrow> deref (h @ ext) p = Some v"
  by (auto simp: deref_def nth_append split: option.splits if_splits)

lemma snapshot_fold_store_member:
  "map_of (rev ms) k = Some v \<Longrightarrow> snapshot (fold store_member ms w) k = Some v"
proof (induction ms arbitrary: w)
  case Nil
  then show ?case by simp
next
  case (Cons x xs)
  obtain k' v' where x: "x = (k', v')" by (cases x)
  show ?case
  proof (cases "map_of (rev xs) k")
    case (Some u)
    with Cons.prems have "u = v" by (simp add: x)
    with Some Cons.IH [of "store_member x w"] show ?thesis by simp
  next
    case None
    with Cons.prems x have kv: "k' = k" "v' = v" by (auto split: if_splits)
    from None have notin: "k \<notin> fst ` set xs"
      by (metis map_of_eq_None_iff set_rev)
    have m: "mappings (fold store_member xs (store_member x w)) k = mappings (store_member x w) k"
      using notin by (rule fold_store_member_absent)
    from fold_store_member_heap [of xs "store_member x w"] obtain ext
      where h: "heap (fold store_member xs (store_member x w)) = heap (store_member x w) @ ext"
      by blast
    show ?thesis
    proof (cases v)
      case None
      with x kv m show ?thesis by (simp add: snapshot_def deref_def)
    next
      case (Some r)
      have "deref (heap (store_member x w)) (Some (length (heap w))) = Some r"
        using x kv Some by (simp add: put_new_def deref_def)
      then have "deref (heap (store_member x w) @ ext) (Some (length (heap w))) = Some r"
        by (rule deref_ext)
      with x kv m h Some show ?thesis by (simp add: snapshot_def put_new_def)
    qed
  qed
qed

lemma snapshot_fold_store_member_none:
  "map_of (rev ms) k = None \<Longrightarrow> mappings w k = None \<Longrightarrow> snapshot (fold store_member ms w) k = None"
proof -
  assume a: "map_of (rev ms) k = None" and b: "mappings w k = None"
  from a have "k \<notin> fst ` set ms" by (metis map_of_eq_None_iff set_rev)
  then have "mappings (fold store_member ms w) k = mappings w k" by (rule fold_store_member_absent)
  with b show ?thesis by (simp add: snapshot_def)
qed

section \<open>A goroutine on its own\<close>

text \<open>
  Run from a state in which the lock is free and with no other goroutine taking steps,
  the goroutine of a submission, of a status query and of a runner ends in what
  \<open>handleTranscode\<close>, \<open>handleStatus\<close> and \<open>transcode\<close> compute. The one run of a
  handler that leaves the lock held is the panic at the store into a nil map.
\<close>

lemma unlocked_again: "\<not> mu_held w \<Longrightarrow> w\<lparr>mu_held := False\<rparr> = w"
  by (cases w) simp

lemma unlocked_again_logs: "\<not> mu_held w \<Longrightarrow> w\<lparr>logs := l, mu_held := False\<rparr> = w\<lparr>logs := l\<rparr>"
  by (cases w) simp

lemma snapshot_mu_held [simp]: "snapshot (w\<lparr>mu_held := b\<rparr>) = snapshot w"
  by (simp add: snapshot_def)

lemma save_under_lock:
  "(snd (save L wo w))\<lparr>mu_held := b\<rparr> = snd (save L wo (w\<lparr>mu_held := b\<rparr>))"
  by (simp add: save_def os_WriteFile_def split: sum.splits write_outcome.splits)

lemma put_new_under_lock:
  "(put_new k v w)\<lparr>mu_held := b\<rparr> = put_new k v (w\<lparr>mu_held := b\<rparr>)"
  by (simp add: put_new_def)

lemma set_status_under_lock:
  "(set_status a st w)\<lparr>mu_held := b\<rparr> = set_status a st (w\<lparr>mu_held := b\<rparr>)"
  by (simp add: set_status_def)

lemma handleTranscode_as_thread:
  assumes "\<not> mu_held w"
  shows "run_thread L orc 9 (w, HT_start r, []) =
     (case handleTranscode L (stat_answer orc) (write_answer orc) r w of
        (resp, w', spawned) \<Rightarrow>
          (w', if mu_held w' then Panicked_in_lock else Done resp,
           map (\<lambda>(videoPath, outputDir, videoName). TR_start videoName) spawned))"
  using assms
  by (simp add: eval_nat_numeral handleTranscode_def start_job_def Let_def
        save_under_lock put_new_under_lock unlocked_again [OF assms]
        split: option.splits)

lemma handleStatus_as_thread:
  assumes "\<not> mu_held w"
  shows "run_thread L orc 4 (w, HS_start r, []) =
     (case handleStatus r w of (resp, w') \<Rightarrow> (w', Done resp, []))"
  using assms
  by (simp add: eval_nat_numeral handleStatus_def Let_def split: option.splits)

lemma transcode_as_thread:
  assumes "\<not> mu_held w"
  shows "(case transcode L (enc_answer orc) (write_answer orc) k w of
            Some w' \<Rightarrow> run_thread L orc 5 (w, TR_start k, []) = (w', Finished, [])
          | None \<Rightarrow> fst (snd (run_thread L orc 5 (w, TR_start k, []))) = Crashed)"
  using assms
  by (simp add: eval_nat_numeral transcode_def Let_def
        save_under_lock set_status_under_lock unlocked_again_logs [OF assms]
        split: option.splits)

section \<open>The nil map\<close>

text \<open>
  No step changes whether the map is nil, and a nil map is never stored into: in every
  state the process reaches, a nil map has no entries.
\<close>

lemma save_map_nil [simp]: "map_nil (snd (save L wo w)) = map_nil w"
  by (simp add: save_def os_WriteFile_def split: sum.splits write_outcome.splits)

lemma put_new_map_nil [simp]: "map_nil (put_new k v w) = map_nil w"
  by (simp add: put_new_def)

lemma set_status_map_nil [simp]: "map_nil (set_status a st w) = map_nil w"
  by (simp add: set_status_def)

lemma set_status_mappings [simp]: "mappings (set_status a st w) = mappings w"
  by (simp add: set_status_def)

lemma step_map_nil:
  "step_thread L orc w t = Some (w', t', new) \<Longrightarrow> map_nil w' = map_nil w"
  by (cases t) (auto simp: Let_def split: option.splits if_splits)

lemma step_nil_map_untouched:
  "step_thread L orc w t = Some (w', t', new) \<Longrightarrow> map_nil w \<Longrightarrow> mappings w' = mappings w"
  by (cases t) (auto simp: Let_def split: option.splits if_splits)

lemma exec_nil_map:
  assumes "exec L e s = Some s'" and "map_nil (shared s')"
  shows "map_nil (shared s) \<and> mappings (shared s') = mappings (shared s)"
proof (cases e)
  case (Step i orc)
  with assms(1) obtain w' t' new
    where st: "step_thread L orc (shared s) (threads s ! i) = Some (w', t', new)"
      and w': "shared s' = w'"
    by (auto split: if_splits option.splits)
  from step_map_nil [OF st] assms(2) w' have n: "map_nil (shared s)" by simp
  from step_nil_map_untouched [OF st n] w' n show ?thesis by simp
qed (use assms in auto)

lemma run_nil_map:
  "run L evs s = Some s' \<Longrightarrow> map_nil (shared s') \<Longrightarrow>
   map_nil (shared s) \<and> mappings (shared s') = mappings (shared s)"
proof (induction evs arbitrary: s)
  case Nil
  then show ?case by simp
next
  case (Cons e es)
  from Cons.prems(1) obtain s1 where 1: "exec L e s = Some s1" and 2: "run L es s1 = Some s'"
    by (auto split: option.splits)
  from Cons.IH [OF 2 Cons.prems(2)]
  have a: "map_nil (shared s1)" and b: "mappings (shared s') = mappings (shared s1)" by simp_all
  from exec_nil_map [OF 1 a] b show ?case by simp
qed

lemma fold_store_member_keeps_map_nil: "map_nil (fold store_member ms w) = map_nil w"
proof (induction ms arbitrary: w)
  case Nil
  then show ?case by simp
next
  case (Cons x xs)
  then show ?case by (cases x; cases "snd x"; simp)
qed

lemma load_nil_map:
  "map_nil (snd (load L fault (fresh_world disk))) \<Longrightarrow>
   mappings (snd (load L fault (fresh_world disk))) = Map.empty"
  by (simp add: load_def fresh_world_def fold_store_member_keeps_map_nil
           split: sum.splits prod.splits decoded.splits if_splits)

lemma main_init_nil_map:
  assumes "map_nil (main_init L fault disk)"
  shows "mappings (main_init L fault disk) = Map.empty"
proof -
  obtain err w1 where l: "load L fault (fresh_world disk) = (err, w1)"
    by (cases "load L fault (fresh_world disk)")
  with assms have "map_nil w1" by (cases err) (simp_all add: main_init_def)
  with load_nil_map [of L fault disk] l have "mappings w1 = Map.empty" by simp
  with l show ?thesis by (cases err) (simp_all add: main_init_def)
qed

lemma nil_map_is_empty:
  assumes "run L evs (boot L fault disk) = Some s" and "map_nil (shared s)"
  shows "mappings (shared s) = Map.empty"
proof -
  from run_nil_map [OF assms]
  have "map_nil (main_init L fault disk)"
    and "mappings (shared s) = mappings (main_init L fault disk)"
    by (simp_all add: boot_def)
  with main_init_nil_map show ?thesis by simp
qed

section \<open>Entries that hold nil\<close>

text \<open>
  A null member of the state file is stored as a nil pointer. Such an entry is present
  in the map but is no record: both handlers dereference it and panic. No step of the
  program stores nil, so only a state file that was edited by hand leads here.
\<close>

lemma nil_entry_panics:
  assumes "mappings w k = Some None" and "k \<noteq> []"
  shows "strings_TrimPrefix (URLPath r) ''/api/status/'' = k \<Longrightarrow>
           handleStatus r w = (HandlerPanic, w)"
    and "Method r = ''POST'' \<Longrightarrow> QueryVideo r = k \<Longrightarrow>
         \<not> os_IsNotExist (stat (Join L ''videos'' k)) \<Longrightarrow>
           handleTranscode L stat wo r w = (HandlerPanic, w, [])"
  using assms
  by (simp_all add: handleStatus_def handleTranscode_def deref_def Let_def)

section \<open>The source-existence check\<close>

text \<open>
  C10. The submission handler answers 404 "Video not found" exactly when the request is
  a POST with a video name and \<^verbatim>\<open>os.Stat\<close> reports that the file does not exist. Under
  any other answer of \<^verbatim>\<open>os.Stat\<close>, an error such as a permission failure included, the
  handler does what it does when \<^verbatim>\<open>os.Stat\<close> succeeds.
\<close>

theorem handleTranscode_stat_check:
  "(fst (handleTranscode L stat wo r w) = HttpError 404 ''Video not found'' \<longleftrightarrow>
      Method r = ''POST'' \<and> QueryVideo r \<noteq> [] \<and>
      stat (Join L ''videos'' (QueryVideo r)) = Some ErrNotExist)
   \<and> (stat (Join L ''videos'' (QueryVideo r)) \<noteq> Some ErrNotExist \<longrightarrow>
        handleTranscode L stat wo r w = handleTranscode L (\<lambda>path. None) wo r w)"
  by (auto simp: handleTranscode_def start_job_def os_IsNotExist_def Let_def
           split: option.splits)

theorem handleTranscode_stat_check_witness:
  "stat_denied (Join example_lib ''videos'' (QueryVideo post_a)) \<noteq> Some ErrNotExist
   \<and> handleTranscode example_lib stat_denied WriteOk post_a empty_world
       = handleTranscode example_lib (\<lambda>path. None) WriteOk post_a empty_world
   \<and> fst (handleTranscode example_lib stat_denied WriteOk post_a empty_world)
       = JsonOK [(''message'', ''Transcoding started''), (''transcode_dir'', ''a''),
                 (''status'', ''processing'')]"
proof -
  have h: "stat_denied (Join example_lib ''videos'' (QueryVideo post_a)) \<noteq> Some ErrNotExist"
    by (simp add: stat_denied_def)
  have e: "handleTranscode example_lib stat_denied WriteOk post_a empty_world
       = handleTranscode example_lib (\<lambda>path. None) WriteOk post_a empty_world"
    using handleTranscode_stat_check [of example_lib stat_denied WriteOk post_a empty_world] h
    by blast
  have r: "fst (handleTranscode example_lib (\<lambda>path. None) WriteOk post_a empty_world)
       = JsonOK [(''message'', ''Transcoding started''), (''transcode_dir'', ''a''),
                 (''status'', ''processing'')]"
    by (simp add: handleTranscode_def start_job_def post_a_def empty_world_def main_init_def
          fresh_world_def load_def os_ReadFile_def os_IsNotExist_def example_lib_def Let_def
          strings_TrimSuffix_def strings_HasSuffix_def filepath_Ext_def)
  from h e r show ?thesis by simp
qed

section \<open>The submission policy\<close>

text \<open>
  The handler run on its own, with no step of another goroutine between its steps. A
  submission is a POST that names a video for which \<^verbatim>\<open>os.Stat\<close> does not report
  "does not exist". If the video's record is \<open>completed\<close>, the handler answers with the
  record's directory and stream locator, leaves the process state as it was and starts
  no runner. If the record is \<open>processing\<close>, it answers that the video is being
  transcoded, leaves the state as it was (so no second record) and starts no runner. If
  the map is not nil and the key is absent or the record is \<open>failed\<close>, it stores a fresh \<open>processing\<close> record
  under the key, touching no other key's record, calls \<^verbatim>\<open>save\<close> on the new registry
  (which, when the write succeeds, leaves the encoded registry in the file), starts
  exactly one runner and answers that transcoding started. A record exists under a
  key when the key holds a pointer to an object.
\<close>

lemma handleTranscode_alone:
  assumes "Method r = ''POST''" and "QueryVideo r = v" and "v \<noteq> []"
    and "\<not> os_IsNotExist (stat (Join L ''videos'' v))"
  shows
   "(\<forall>m. record_of w v = Some m \<and> Status m = ''completed'' \<longrightarrow>
       handleTranscode L stat wo r w =
         (JsonOK [(''message'', ''Video already transcoded''),
                  (''transcode_dir'', TranscodeDir m),
                  (''stream_url'', stream_url (TranscodeDir m))], w, []))
    \<and> (\<forall>m. record_of w v = Some m \<and> Status m = ''processing'' \<longrightarrow>
       handleTranscode L stat wo r w =
         (JsonOK [(''message'', ''Video is currently being transcoded''),
                  (''status'', ''processing'')], w, []))
    \<and> (\<not> map_nil w \<and>
        (mappings w v = None \<or> (\<exists>m. record_of w v = Some m \<and> Status m = ''failed'')) \<longrightarrow>
       handleTranscode L stat wo r w =
         (JsonOK [(''message'', ''Transcoding started''),
                  (''transcode_dir'', strings_TrimSuffix v (filepath_Ext v)),
                  (''status'', ''processing'')],
          snd (save L wo (put_new v (new_mapping v) w)),
          [(Join L ''videos'' v, Join L ''transcoded'' (strings_TrimSuffix v (filepath_Ext v)), v)])
       \<and> record_of (snd (save L wo (put_new v (new_mapping v) w))) v =
           Some \<lparr>OriginalName = v, TranscodeDir = strings_TrimSuffix v (filepath_Ext v),
                 Status = ''processing''\<rparr>
       \<and> (\<forall>k m. k \<noteq> v \<and> record_of w k = Some m \<longrightarrow>
             record_of (snd (save L wo (put_new v (new_mapping v) w))) k = Some m)
       \<and> (\<forall>data. wo = WriteOk \<and> Marshal L (snapshot (put_new v (new_mapping v) w)) = Inr data \<longrightarrow>
             files (snd (save L wo (put_new v (new_mapping v) w))) (filePath w) = Some data))"
proof (intro conjI allI impI)
  fix m assume "record_of w v = Some m \<and> Status m = ''completed''"
  with assms show "handleTranscode L stat wo r w =
         (JsonOK [(''message'', ''Video already transcoded''),
                  (''transcode_dir'', TranscodeDir m),
                  (''stream_url'', stream_url (TranscodeDir m))], w, [])"
    by (auto simp: handleTranscode_def record_of_def split: option.splits)
next
  fix m assume "record_of w v = Some m \<and> Status m = ''processing''"
  with assms show "handleTranscode L stat wo r w =
         (JsonOK [(''message'', ''Video is currently being transcoded''),
                  (''status'', ''processing'')], w, [])"
    by (auto simp: handleTranscode_def record_of_def split: option.splits)
next
  assume "\<not> map_nil w \<and>
        (mappings w v = None \<or> (\<exists>m. record_of w v = Some m \<and> Status m = ''failed''))"
  with assms show "handleTranscode L stat wo r w =
         (JsonOK [(''message'', ''Transcoding started''),
                  (''transcode_dir'', strings_TrimSuffix v (filepath_Ext v)),
                  (''status'', ''processing'')],
          snd (save L wo (put_new v (new_mapping v) w)),
          [(Join L ''videos'' v, Join L ''transcoded'' (strings_TrimSuffix v (filepath_Ext v)), v)])"
    by (auto simp: handleTranscode_def start_job_def record_of_def Let_def split: option.splits)
next
  show "record_of (snd (save L wo (put_new v (new_mapping v) w))) v =
           Some \<lparr>OriginalName = v, TranscodeDir = strings_TrimSuffix v (filepath_Ext v),
                 Status = ''processing''\<rparr>"
    by (simp add: new_mapping_def)
next
  fix k m assume "k \<noteq> v \<and> record_of w k = Some m"
  then show "record_of (snd (save L wo (put_new v (new_mapping v) w))) k = Some m"
    by simp
next
  fix data
  assume "wo = WriteOk \<and> Marshal L (snapshot (put_new v (new_mapping v) w)) = Inr data"
  then show "files (snd (save L wo (put_new v (new_mapping v) w))) (filePath w) = Some data"
    by (simp add: save_def os_WriteFile_def put_new_def)
qed

lemmas eval_defs = handleTranscode_def start_job_def post_a_def empty_world_def main_init_def
          fresh_world_def
          load_def os_ReadFile_def os_IsNotExist_def example_lib_def Let_def
          strings_TrimSuffix_def strings_HasSuffix_def filepath_Ext_def stat_found_def
          record_of_def put_new_def new_mapping_def deref_def save_def os_WriteFile_def snapshot_def
          processing_world_def

lemma handleTranscode_alone_example:
  "handleTranscode example_lib stat_found WriteOk post_a empty_world =
     (JsonOK [(''message'', ''Transcoding started''), (''transcode_dir'', ''a''),
              (''status'', ''processing'')],
      processing_world,
      [(''videos/a.mp4'', ''transcoded/a'', ''a.mp4'')])
   \<and> record_of processing_world ''a.mp4'' =
       Some \<lparr>OriginalName = ''a.mp4'', TranscodeDir = ''a'', Status = ''processing''\<rparr>
   \<and> files processing_world ''transcode_mappings.json'' = Some ''a.mp4 processing''
   \<and> handleTranscode example_lib stat_found WriteOk post_a processing_world =
     (JsonOK [(''message'', ''Video is currently being transcoded''),
              (''status'', ''processing'')], processing_world, [])"
proof -
  have a: "Method post_a = ''POST''" "QueryVideo post_a = ''a.mp4''" "''a.mp4'' \<noteq> []"
    "\<not> os_IsNotExist (stat_found (Join example_lib ''videos'' ''a.mp4''))"
    by (simp_all add: post_a_def os_IsNotExist_def stat_found_def)
  have none: "\<not> map_nil empty_world \<and> mappings empty_world ''a.mp4'' = None"
    by (simp add: eval_defs)
  have pw: "processing_world = snd (save example_lib WriteOk (put_new ''a.mp4'' (new_mapping ''a.mp4'') empty_world))"
    using handleTranscode_alone [where r=post_a and v="''a.mp4''" and L=example_lib and stat=stat_found and w=empty_world and wo=WriteOk] a none
    by (simp add: processing_world_def)
  have stem: "strings_TrimSuffix ''a.mp4'' (filepath_Ext ''a.mp4'') = ''a''"
    by (simp add: strings_TrimSuffix_def strings_HasSuffix_def filepath_Ext_def)
  have j: "Join example_lib ''videos'' ''a.mp4'' = ''videos/a.mp4''"
     "Join example_lib ''transcoded'' ''a'' = ''transcoded/a''"
    by (simp_all add: example_lib_def)
  have m: "Marshal example_lib (snapshot (put_new ''a.mp4'' (new_mapping ''a.mp4'') empty_world)) = Inr ''a.mp4 processing''"
    by (simp add: example_lib_def snapshot_def put_new_def new_mapping_def deref_def)
  have fp: "filePath empty_world = ''transcode_mappings.json''"
    by (simp add: eval_defs)
  have first: "handleTranscode example_lib stat_found WriteOk post_a empty_world =
     (JsonOK [(''message'', ''Transcoding started''), (''transcode_dir'', ''a''),
              (''status'', ''processing'')],
      processing_world,
      [(''videos/a.mp4'', ''transcoded/a'', ''a.mp4'')])"
    using handleTranscode_alone [where r=post_a and v="''a.mp4''" and L=example_lib and stat=stat_found and w=empty_world and wo=WriteOk] a none pw stem j by simp
  have rec: "record_of processing_world ''a.mp4'' =
       Some \<lparr>OriginalName = ''a.mp4'', TranscodeDir = ''a'', Status = ''processing''\<rparr>"
    using handleTranscode_alone [where r=post_a and v="''a.mp4''" and L=example_lib and stat=stat_found and w=empty_world and wo=WriteOk] a none pw stem by simp
  have fl: "files processing_world ''transcode_mappings.json'' = Some ''a.mp4 processing''"
    using handleTranscode_alone [where r=post_a and v="''a.mp4''" and L=example_lib and stat=stat_found and w=empty_world and wo=WriteOk] a none pw m fp by simp
  have second: "handleTranscode example_lib stat_found WriteOk post_a processing_world =
     (JsonOK [(''message'', ''Video is currently being transcoded''),
              (''status'', ''processing'')], processing_world, [])"
    using handleTranscode_alone [where r=post_a and v="''a.mp4''" and L=example_lib and stat=stat_found and w=processing_world and wo=WriteOk] a rec by simp
  from first rec fl second show ?thesis by simp
qed

text \<open>
  C1. Lines 181 and 190 each read the record's status through the pointer, after the
  read lock was released at line 179, and the runner may write the status between the
  two reads. Here a second submission of \<^verbatim>\<open>a.mp4\<close> arrives while the runner of the first
  is encoding. At line 181 the status is \<open>processing\<close>, so the test for \<open>completed\<close>
  fails; the runner finishes and writes \<open>completed\<close>; at line 190 the status is
  \<open>completed\<close>, so the test for \<open>processing\<close> fails as well. The handler stores a fresh
  \<open>processing\<close> record over the completed one, answers "Transcoding started" and starts
  a second runner, although the video had a record all along, first \<open>processing\<close> and
  then \<open>completed\<close>. Further, a state file that holds \<^verbatim>\<open>null\<close> leaves the map nil
  without a warning: the submission then panics at its store with the lock held.
\<close>

theorem submission_overlapping_completion:
  "map_option (\<lambda>s. (threads s ! 2, map Status (heap (shared s))))
     (run example_lib second_submission_first_test example_boot)
     = Some (HT_check_processing ''a.mp4'' (Some (Some 0)), [''processing''])
   \<and> map_option (\<lambda>s. (threads s ! 1, threads s ! 2, map Status (heap (shared s))))
     (run example_lib (second_submission_first_test @ runner_finishes) example_boot)
     = Some (Finished, HT_check_processing ''a.mp4'' (Some (Some 0)), [''completed''])
   \<and> map_option threads
     (run example_lib (second_submission_first_test @ runner_finishes @ second_submission_goes_on)
        example_boot)
     = Some [Done (JsonOK [(''message'', ''Transcoding started''), (''transcode_dir'', ''a''),
                           (''status'', ''processing'')]),
             Finished,
             Done (JsonOK [(''message'', ''Transcoding started''), (''transcode_dir'', ''a''),
                           (''status'', ''processing'')]),
             TR_start ''a.mp4'']
   \<and> map_option (\<lambda>s. (map Status (heap (shared s)), record_of (shared s) ''a.mp4''))
     (run example_lib (second_submission_first_test @ runner_finishes @ second_submission_goes_on)
        example_boot)
     = Some ([''completed'', ''processing''],
             Some \<lparr>OriginalName = ''a.mp4'', TranscodeDir = ''a'', Status = ''processing''\<rparr>)
   \<and> map_nil (main_init example_lib None null_disk)
   \<and> logs (main_init example_lib None null_disk) = []
   \<and> map_option (\<lambda>s. (threads s, mu_held (shared s)))
     (run example_lib submission_up_to_store (boot example_lib None null_disk))
     = Some ([Panicked_in_lock], True)"
proof -
  have 1: "map_option (\<lambda>s. (threads s ! 2, map Status (heap (shared s))))
     (run example_lib second_submission_first_test example_boot)
     = Some (HT_check_processing ''a.mp4'' (Some (Some 0)), [''processing''])"
    by code_simp
  have 2: "map_option (\<lambda>s. (threads s ! 1, threads s ! 2, map Status (heap (shared s))))
     (run example_lib (second_submission_first_test @ runner_finishes) example_boot)
     = Some (Finished, HT_check_processing ''a.mp4'' (Some (Some 0)), [''completed''])"
    by code_simp
  have 3: "map_option threads
     (run example_lib (second_submission_first_test @ runner_finishes @ second_submission_goes_on)
        example_boot)
     = Some [Done (JsonOK [(''message'', ''Transcoding started''), (''transcode_dir'', ''a''),
                           (''status'', ''processing'')]),
             Finished,
             Done (JsonOK [(''message'', ''Transcoding started''), (''transcode_dir'', ''a''),
                           (''status'', ''processing'')]),
             TR_start ''a.mp4'']"
    by code_simp
  have 4: "map_option (\<lambda>s. (map Status (heap (shared s)), record_of (shared s) ''a.mp4''))
     (run example_lib (second_submission_first_test @ runner_finishes @ second_submission_goes_on)
        example_boot)
     = Some ([''completed'', ''processing''],
             Some \<lparr>OriginalName = ''a.mp4'', TranscodeDir = ''a'', Status = ''processing''\<rparr>)"
    by code_simp
  have 5: "map_nil (main_init example_lib None null_disk)"
    by code_simp
  have 6: "logs (main_init example_lib None null_disk) = []"
    by code_simp
  have 7: "map_option (\<lambda>s. (threads s, mu_held (shared s)))
     (run example_lib submission_up_to_store (boot example_lib None null_disk))
     = Some ([Panicked_in_lock], True)"
    by code_simp
  from 1 2 3 4 5 6 7 show ?thesis by blast
qed

section \<open>Directories are stems\<close>

text \<open>
  A process that starts without a state file only ever holds records whose directory
  is the stem of their key, under any arrivals of requests and any interleaving.
\<close>

lemma dirs_are_stemsD:
  "dirs_are_stems w \<Longrightarrow> mappings w k = Some (Some a) \<Longrightarrow>
   a < length (heap w) \<and> OriginalName (heap w ! a) = k
   \<and> TranscodeDir (heap w ! a) = strings_TrimSuffix k (filepath_Ext k)"
  by (simp add: dirs_are_stems_def)

lemma dirs_are_stems_put_new:
  assumes "dirs_are_stems w"
  shows "dirs_are_stems (put_new k (new_mapping k) w)"
  unfolding dirs_are_stems_def
proof (intro allI impI)
  fix k' a
  assume m: "mappings (put_new k (new_mapping k) w) k' = Some (Some a)"
  show "a < length (heap (put_new k (new_mapping k) w))
        \<and> OriginalName (heap (put_new k (new_mapping k) w) ! a) = k'
        \<and> TranscodeDir (heap (put_new k (new_mapping k) w) ! a)
            = strings_TrimSuffix k' (filepath_Ext k')"
  proof (cases "k' = k")
    case True
    with m have "a = length (heap w)" by (simp add: put_new_def)
    with True show ?thesis by (simp add: put_new_def new_mapping_def)
  next
    case False
    with m have "mappings w k' = Some (Some a)" by (simp add: put_new_def)
    from dirs_are_stemsD [OF assms this] show ?thesis
      by (simp add: put_new_def nth_append)
  qed
qed

lemma dirs_are_stems_set_status:
  assumes "dirs_are_stems w"
  shows "dirs_are_stems (set_status a st w)"
  unfolding dirs_are_stems_def
proof (intro allI impI)
  fix k b
  assume "mappings (set_status a st w) k = Some (Some b)"
  then have "mappings w k = Some (Some b)" by (simp add: set_status_def)
  from dirs_are_stemsD [OF assms this]
  show "b < length (heap (set_status a st w))
        \<and> OriginalName (heap (set_status a st w) ! b) = k
        \<and> TranscodeDir (heap (set_status a st w) ! b) = strings_TrimSuffix k (filepath_Ext k)"
    by (cases "a < length (heap w)") (auto simp: set_status_def nth_list_update)
qed

lemma dirs_are_stems_same:
  "dirs_are_stems w \<Longrightarrow> heap w' = heap w \<Longrightarrow> mappings w' = mappings w \<Longrightarrow> dirs_are_stems w'"
  by (simp add: dirs_are_stems_def)

lemma dirs_are_stems_save: "dirs_are_stems w \<Longrightarrow> dirs_are_stems (snd (save L wo w))"
  by (rule dirs_are_stems_same) simp_all

lemma step_dirs_are_stems:
  assumes "step_thread L orc w t = Some (w', t', new)" and "dirs_are_stems w"
  shows "dirs_are_stems w'"
proof (cases t)
  case (TR_update k enc)
  let ?w1 = "w\<lparr>logs := logs w @ [case snd enc of
                                       Some err \<Rightarrow> LogFailed k err (fst enc)
                                     | None \<Rightarrow> LogCompleted k]\<rparr>"
  have 1: "dirs_are_stems ?w1" using assms(2) by (rule dirs_are_stems_same) simp_all
  have 2: "dirs_are_stems (?w1\<lparr>mu_held := False\<rparr>)"
    using assms(2) by (rule dirs_are_stems_same) simp_all
  from assms(1) TR_update 1 2 show ?thesis
    by (auto simp: Let_def dirs_are_stems_set_status split: option.splits)
next
  case (HT_put k)
  with assms show ?thesis by (auto simp: dirs_are_stems_put_new split: if_splits)
next
  case (HT_save k)
  with assms show ?thesis by (auto simp: dirs_are_stems_save)
next
  case (TR_save k)
  with assms show ?thesis by (auto simp: dirs_are_stems_save)
next
  case (HT_lock k)
  with assms show ?thesis by (auto elim: dirs_are_stems_same split: if_splits)
next
  case (HT_unlock k)
  with assms show ?thesis by (auto elim: dirs_are_stems_same)
next
  case (TR_lock k enc)
  with assms show ?thesis by (auto elim: dirs_are_stems_same split: if_splits)
next
  case (TR_unlock k)
  with assms show ?thesis by (auto elim: dirs_are_stems_same)
next
  case (TR_start k)
  with assms show ?thesis by (auto elim: dirs_are_stems_same)
qed (use assms in \<open>auto simp: Let_def split: option.splits if_splits\<close>)

lemma run_dirs_are_stems:
  "run L evs s = Some s' \<Longrightarrow> dirs_are_stems (shared s) \<Longrightarrow> dirs_are_stems (shared s')"
proof (induction evs arbitrary: s)
  case Nil
  then show ?case by simp
next
  case (Cons e es)
  from Cons.prems(1) obtain s1 where 1: "exec L e s = Some s1" and 2: "run L es s1 = Some s'"
    by (auto split: option.splits)
  have "dirs_are_stems (shared s1)"
  proof (cases e)
    case (Step i orc)
    with 1 Cons.prems(2) show ?thesis
      by (auto simp: step_dirs_are_stems split: if_splits option.splits)
  qed (use 1 Cons.prems(2) in auto)
  with Cons.IH [OF 2] show ?case .
qed

lemma fresh_world_dirs_are_stems: "dirs_are_stems (fresh_world disk)"
  by (simp add: dirs_are_stems_def fresh_world_def)


lemma reachable_dirs_are_stems:
  assumes "disk ''transcode_mappings.json'' = None"
    and "run L evs (boot L fault disk) = Some s"
  shows "dirs_are_stems (shared s)"
proof -
  from assms(1) have "main_init L fault disk = fresh_world disk"
    by (simp add: main_init_def load_def os_ReadFile_def os_IsNotExist_def fresh_world_def)
  then have "dirs_are_stems (shared (boot L fault disk))"
    by (simp add: boot_def fresh_world_dirs_are_stems)
  with assms(2) show ?thesis by (rule run_dirs_are_stems)
qed

section \<open>The status query\<close>

text \<open>
  The handler run on its own, with no step of another goroutine between its steps. A
  status query for a non-empty name whose key is absent is answered 404 "Video not
  found". When the key holds a record, the answer is the record's \<open>video\<close>,
  \<open>transcode_dir\<close> and \<open>status\<close>, followed by \<open>stream_url\<close> exactly when the status is
  \<open>completed\<close>; the locator is "/hls/<dir>/master.m3u8" with <dir> the record's
  directory, which is the stem of the name for a record as the submission handler
  stores it (\<open>reachable_dirs_are_stems\<close>). In every case the handler leaves the process state
  as it was. A record exists under a key when the key holds a pointer to an object.
\<close>

lemma handleStatus_alone:
  assumes "strings_TrimPrefix (URLPath r) ''/api/status/'' = k" and "k \<noteq> []"
  shows
   "(mappings w k = None \<longrightarrow> handleStatus r w = (HttpError 404 ''Video not found'', w))
    \<and> (\<forall>m. record_of w k = Some m \<longrightarrow>
          handleStatus r w =
            (JsonOK ([(''video'', OriginalName m), (''transcode_dir'', TranscodeDir m),
                      (''status'', Status m)]
                     @ (if Status m = ''completed''
                        then [(''stream_url'', ''/hls/'' @ TranscodeDir m @ ''/master.m3u8'')]
                        else [])), w))
    \<and> snd (handleStatus r w) = w
    \<and> (\<forall>m. record_of w k = Some m \<and> Status m = ''completed'' \<and>
             TranscodeDir m = strings_TrimSuffix k (filepath_Ext k) \<longrightarrow>
          map_of (case fst (handleStatus r w) of JsonOK members \<Rightarrow> members | _ \<Rightarrow> [])
                 ''stream_url''
            = Some (''/hls/'' @ strings_TrimSuffix k (filepath_Ext k) @ ''/master.m3u8''))"
  using assms
  by (auto simp: handleStatus_def record_of_def stream_url_def Let_def
           split: option.splits)

lemma handleStatus_alone_example:
  "handleStatus status_a empty_world = (HttpError 404 ''Video not found'', empty_world)
   \<and> handleStatus status_a processing_world =
        (JsonOK [(''video'', ''a.mp4''), (''transcode_dir'', ''a''),
                 (''status'', ''processing'')], processing_world)
   \<and> handleStatus status_a completed_world =
        (JsonOK [(''video'', ''a.mp4''), (''transcode_dir'', ''a''),
                 (''status'', ''completed''), (''stream_url'', ''/hls/a/master.m3u8'')],
         completed_world)"
proof -
  have a: "strings_TrimPrefix (URLPath status_a) ''/api/status/'' = ''a.mp4''" "''a.mp4'' \<noteq> []"
    by (simp_all add: status_a_def strings_TrimPrefix_def strings_HasPrefix_def)
  note inst = handleStatus_alone [where r=status_a and k="''a.mp4''", OF a]
  have e: "mappings empty_world ''a.mp4'' = None"
    by (simp add: eval_defs)
  have p: "record_of processing_world ''a.mp4'' =
       Some \<lparr>OriginalName = ''a.mp4'', TranscodeDir = ''a'', Status = ''processing''\<rparr>"
    by (simp add: eval_defs)
  have c: "record_of completed_world ''a.mp4'' =
       Some \<lparr>OriginalName = ''a.mp4'', TranscodeDir = ''a'', Status = ''completed''\<rparr>"
    by (simp add: completed_world_def transcode_def set_status_def eval_defs)
  from inst [of empty_world] e
  have 1: "handleStatus status_a empty_world = (HttpError 404 ''Video not found'', empty_world)"
    by simp
  from inst [of processing_world] p
  have 2: "handleStatus status_a processing_world =
        (JsonOK [(''video'', ''a.mp4''), (''transcode_dir'', ''a''),
                 (''status'', ''processing'')], processing_world)"
    by simp
  from inst [of completed_world] c
  have 3: "handleStatus status_a completed_world =
        (JsonOK [(''video'', ''a.mp4''), (''transcode_dir'', ''a''),
                 (''status'', ''completed''), (''stream_url'', ''/hls/a/master.m3u8'')],
         completed_world)"
    by simp
  from 1 2 3 show ?thesis by simp
qed

lemma handleStatus_alone_iff:
  "handleStatus r w = (JsonOK members, w') \<Longrightarrow>
   (map_of members ''stream_url'' \<noteq> None \<longleftrightarrow> map_of members ''status'' = Some ''completed'')"
  by (auto simp: handleStatus_def Let_def split: if_splits option.splits)

text \<open>
  C4. Lines 245 and 248 each read the record's status through the pointer, after the
  read lock was released at line 235. Here the runner writes \<open>completed\<close> between the
  two reads: the query answers with the status \<open>processing\<close> and with a \<open>stream_url\<close>. The
  locator is included although the status in the same answer is not \<open>completed\<close>,
  which the handler run on its own never does (\<open>handleStatus_alone_iff\<close>).
\<close>

theorem query_around_update_answer:
  "map_option (\<lambda>s. threads s ! 2) (run example_lib query_around_update example_boot)
     = Some (Done (JsonOK [(''video'', ''a.mp4''), (''transcode_dir'', ''a''),
                           (''status'', ''processing''),
                           (''stream_url'', ''/hls/a/master.m3u8'')]))
   \<and> map_option (\<lambda>s. (threads s ! 1, map Status (heap (shared s))))
        (run example_lib query_around_update example_boot)
     = Some (TR_save ''a.mp4'', [''completed''])"
  by code_simp

section \<open>A failing save\<close>

text \<open>
  Both callers of \<^verbatim>\<open>save\<close> (lines 210 and 292) drop the error it returns. With a write
  that fails for lack of permission, the submission of \<^verbatim>\<open>a.mp4\<close> is still answered
  "Transcoding started" and leaves the log empty; the runner's log holds its two
  lines about the encoder, the same as with a write that succeeds, and no line about
  the write.
\<close>

theorem failed_save_is_dropped_silently:
  "fst (save example_lib (WriteFail ErrPermission None)
         (put_new ''a.mp4'' (new_mapping ''a.mp4'') empty_world)) = Some (OsError ErrPermission)
   \<and> fst (handleTranscode example_lib stat_found (WriteFail ErrPermission None) post_a empty_world)
       = JsonOK [(''message'', ''Transcoding started''), (''transcode_dir'', ''a''),
                 (''status'', ''processing'')]
   \<and> logs (fst (snd (handleTranscode example_lib stat_found (WriteFail ErrPermission None)
                       post_a empty_world))) = []
   \<and> fst (save example_lib (WriteFail ErrPermission None)
           (set_status 0 ''completed'' processing_world)) = Some (OsError ErrPermission)
   \<and> map_option logs (transcode example_lib ([], None) (WriteFail ErrPermission None) ''a.mp4''
                        processing_world)
       = Some [LogStarting ''a.mp4'', LogCompleted ''a.mp4'']
   \<and> map_option logs (transcode example_lib ([], None) WriteOk ''a.mp4'' processing_world)
       = Some [LogStarting ''a.mp4'', LogCompleted ''a.mp4'']"
  by (simp add: eval_defs transcode_def set_status_def)

text \<open>
  C7, as the code has it. \<^verbatim>\<open>save\<close> returns an error to its caller whenever the write
  fails. Whatever the failure, the submission handler's response and the runner it
  starts are those of a successful write, and so are the registry and the objects it
  points to after the handler and after the runner: nothing is rolled back. The log is
  also the same as with a successful write: the handler writes no line and the runner
  none about the write.
\<close>

theorem failed_save_changes_nothing_else:
  "fst (save L (WriteFail e residue) w) \<noteq> None
   \<and> fst (handleTranscode L stat (WriteFail e residue) r w) = fst (handleTranscode L stat WriteOk r w)
   \<and> snd (snd (handleTranscode L stat (WriteFail e residue) r w))
       = snd (snd (handleTranscode L stat WriteOk r w))
   \<and> mappings (fst (snd (handleTranscode L stat (WriteFail e residue) r w)))
       = mappings (fst (snd (handleTranscode L stat WriteOk r w)))
   \<and> heap (fst (snd (handleTranscode L stat (WriteFail e residue) r w)))
       = heap (fst (snd (handleTranscode L stat WriteOk r w)))
   \<and> logs (fst (snd (handleTranscode L stat (WriteFail e residue) r w))) = logs w
   \<and> map_option mappings (transcode L enc (WriteFail e residue) k w)
       = map_option mappings (transcode L enc WriteOk k w)
   \<and> map_option heap (transcode L enc (WriteFail e residue) k w)
       = map_option heap (transcode L enc WriteOk k w)
   \<and> map_option logs (transcode L enc (WriteFail e residue) k w)
       = map_option logs (transcode L enc WriteOk k w)"
proof -
  have 1: "fst (save L (WriteFail e residue) w) \<noteq> None"
    by (simp add: save_def os_WriteFile_def split: sum.splits)
  have 2: "fst (handleTranscode L stat (WriteFail e residue) r w) = fst (handleTranscode L stat WriteOk r w)"
    "snd (snd (handleTranscode L stat (WriteFail e residue) r w))
       = snd (snd (handleTranscode L stat WriteOk r w))"
    by (simp_all add: handleTranscode_def start_job_def Let_def split: option.splits)
  have 3: "mappings (fst (snd (handleTranscode L stat (WriteFail e residue) r w)))
       = mappings (fst (snd (handleTranscode L stat WriteOk r w)))"
    "heap (fst (snd (handleTranscode L stat (WriteFail e residue) r w)))
       = heap (fst (snd (handleTranscode L stat WriteOk r w)))"
    "logs (fst (snd (handleTranscode L stat (WriteFail e residue) r w))) = logs w"
    by (simp_all add: handleTranscode_def start_job_def put_new_def Let_def split: option.splits)
  have 4: "map_option mappings (transcode L enc (WriteFail e residue) k w)
       = map_option mappings (transcode L enc WriteOk k w)"
    "map_option heap (transcode L enc (WriteFail e residue) k w)
       = map_option heap (transcode L enc WriteOk k w)"
    "map_option logs (transcode L enc (WriteFail e residue) k w)
       = map_option logs (transcode L enc WriteOk k w)"
    by (simp_all add: transcode_def Let_def split: option.splits)
  from 1 2 3 4 show ?thesis by simp
qed

section \<open>Loading at start-up\<close>

text \<open>
  \<^verbatim>\<open>load\<close> decodes straight into the live map and returns the decoder's error as it is.
  On the mistyped document the decoder reports a type error after it has stored
  members: \<^verbatim>\<open>main\<close> logs the warning and goes on with a registry that is not empty.
\<close>

theorem load_error_with_entries:
  "logs (main_init mistyped_lib None mistyped_disk) = [LogLoadWarning (JsonError UnmarshalTypeError)]
   \<and> record_of (main_init mistyped_lib None mistyped_disk) ''a.mp4'' = Some example_record
   \<and> mappings (main_init mistyped_lib None mistyped_disk) \<noteq> Map.empty"
proof -
  have 1: "logs (main_init mistyped_lib None mistyped_disk) = [LogLoadWarning (JsonError UnmarshalTypeError)]"
    by (simp add: main_init_def fresh_world_def load_def os_ReadFile_def mistyped_lib_def
          mistyped_disk_def put_new_def)
  have 2: "record_of (main_init mistyped_lib None mistyped_disk) ''a.mp4'' = Some example_record"
    by (simp add: main_init_def fresh_world_def load_def os_ReadFile_def mistyped_lib_def
          mistyped_disk_def put_new_def record_of_def deref_def)
  have 3: "mappings (main_init mistyped_lib None mistyped_disk) ''a.mp4'' \<noteq> None"
    using 2 by (auto simp: record_of_def split: option.splits)
  then have "mappings (main_init mistyped_lib None mistyped_disk) \<noteq> Map.empty"
    by metis
  with 1 2 show ?thesis by simp
qed

text \<open>
  C6, as the code has it. A missing state file is no error: the registry stays empty and
  nothing is logged. Any other read error is logged as a warning and the registry
  stays empty. A decoding error is logged as a warning too, and start-up goes on with
  the members the decoder stored before it reported the error, which is the empty
  registry when it stored none (and the nil map, were the error to come with the
  document \<^verbatim>\<open>null\<close>).
\<close>

theorem main_init_cases:
  "(os_ReadFile fault ''transcode_mappings.json'' (fresh_world disk) = Inl ErrNotExist \<longrightarrow>
      main_init L fault disk = fresh_world disk)
   \<and> (\<forall>e. os_ReadFile fault ''transcode_mappings.json'' (fresh_world disk) = Inl e \<and> e \<noteq> ErrNotExist \<longrightarrow>
      main_init L fault disk = (fresh_world disk)\<lparr>logs := [LogLoadWarning (OsError e)]\<rparr>)
   \<and> (\<forall>data je members. os_ReadFile fault ''transcode_mappings.json'' (fresh_world disk) = Inr data \<and>
        Unmarshal L data = (Some je, Members members) \<longrightarrow>
      main_init L fault disk =
        (fold store_member members (fresh_world disk))\<lparr>logs := [LogLoadWarning (JsonError je)]\<rparr>
      \<and> (members = [] \<longrightarrow> mappings (main_init L fault disk) = Map.empty))
   \<and> (\<forall>data je. os_ReadFile fault ''transcode_mappings.json'' (fresh_world disk) = Inr data \<and>
        Unmarshal L data = (Some je, Null) \<longrightarrow>
      main_init L fault disk =
        (fresh_world disk)\<lparr>map_nil := True, logs := [LogLoadWarning (JsonError je)]\<rparr>)
   \<and> (disk ''transcode_mappings.json'' = None \<longrightarrow>
        mappings (main_init L fault disk) = Map.empty \<and> logs (main_init L fault disk) = [])"
  by (auto simp: main_init_def load_def os_IsNotExist_def fresh_world_def os_ReadFile_def
           split: option.splits sum.splits)

theorem main_init_cases_witness:
  "main_init example_lib None Map.empty = fresh_world Map.empty
   \<and> main_init example_lib (Some ErrPermission) unreadable_disk
       = (fresh_world unreadable_disk)\<lparr>logs := [LogLoadWarning (OsError ErrPermission)]\<rparr>
   \<and> main_init example_lib None garbled_disk
       = (fresh_world garbled_disk)\<lparr>logs := [LogLoadWarning (JsonError SyntaxError)]\<rparr>
   \<and> mappings (main_init example_lib None garbled_disk) = Map.empty"
proof -
  have r1: "os_ReadFile None ''transcode_mappings.json'' (fresh_world Map.empty) = Inl ErrNotExist"
    by (simp add: os_ReadFile_def fresh_world_def)
  have r2: "os_ReadFile (Some ErrPermission) ''transcode_mappings.json'' (fresh_world unreadable_disk)
      = Inl ErrPermission \<and> ErrPermission \<noteq> ErrNotExist"
    by (simp add: os_ReadFile_def fresh_world_def unreadable_disk_def)
  have r3: "os_ReadFile None ''transcode_mappings.json'' (fresh_world garbled_disk) = Inr ''a.mp''
      \<and> Unmarshal example_lib ''a.mp'' = (Some SyntaxError, Members [])"
    by (simp add: os_ReadFile_def fresh_world_def garbled_disk_def example_lib_def)
  have 1: "main_init example_lib None Map.empty = fresh_world Map.empty"
    using main_init_cases [of None Map.empty example_lib] r1 by blast
  have 2: "main_init example_lib (Some ErrPermission) unreadable_disk
       = (fresh_world unreadable_disk)\<lparr>logs := [LogLoadWarning (OsError ErrPermission)]\<rparr>"
    using main_init_cases [of "Some ErrPermission" unreadable_disk example_lib] r2 by blast
  have 3: "main_init example_lib None garbled_disk
       = (fold store_member [] (fresh_world garbled_disk))\<lparr>logs := [LogLoadWarning (JsonError SyntaxError)]\<rparr>
     \<and> mappings (main_init example_lib None garbled_disk) = Map.empty"
    using main_init_cases [of None garbled_disk example_lib] r3 by blast
  from 1 2 3 show ?thesis by (simp add: fresh_world_def)
qed

section \<open>Saving and loading\<close>

text \<open>
  C5. Take a registry that the encoder accepts and whose document the decoder reads back
  without error as the registry's own members (its fields are representable). Then
  \<^verbatim>\<open>save\<close> with a successful write reports no error, and \<^verbatim>\<open>load\<close> after it reports no
  error and yields an equivalent registry: the same keys, each with the same
  \<open>original_name\<close>, \<open>transcode_dir\<close> and \<open>status\<close>. This holds for \<^verbatim>\<open>load\<close> into the same
  process state and for the start-up of a new process on the saved file.
\<close>

theorem save_then_load:
  assumes m: "Marshal L (snapshot w) = Inr data"
    and u: "Unmarshal L data = (None, Members members)"
    and rt: "map_of (rev members) = snapshot w"
    and fp: "filePath w = ''transcode_mappings.json''"
  shows "fst (save L WriteOk w) = None
    \<and> fst (load L None (snd (save L WriteOk w))) = None
    \<and> snapshot (snd (load L None (snd (save L WriteOk w)))) = snapshot w
    \<and> snapshot (main_init L None (files (snd (save L WriteOk w)))) = snapshot w
    \<and> logs (main_init L None (files (snd (save L WriteOk w)))) = []"
proof -
  let ?w1 = "snd (save L WriteOk w)"
  have s: "fst (save L WriteOk w) = None" and f: "files ?w1 (filePath w) = Some data"
    using m by (simp_all add: save_def os_WriteFile_def)
  have l: "load L None ?w1 = (None, (fold store_member members ?w1)\<lparr>map_nil := False\<rparr>)"
    using f u by (simp add: load_def os_ReadFile_def fold_store_member_map_nil)
  have snap: "snapshot (fold store_member members w') = snapshot w"
    if "mappings w' = mappings w \<or> mappings w' = Map.empty" for w'
  proof
    fix k
    show "snapshot (fold store_member members w') k = snapshot w k"
    proof (cases "map_of (rev members) k")
      case (Some v)
      then show ?thesis using rt snapshot_fold_store_member [of members k v w'] by simp
    next
      case None
      with rt have "snapshot w k = None" by simp
      then have "mappings w k = None" by (simp add: snapshot_def)
      with that have "mappings w' k = None" by auto
      with None have "snapshot (fold store_member members w') k = None"
        by (rule snapshot_fold_store_member_none)
      with \<open>snapshot w k = None\<close> show ?thesis by simp
    qed
  qed
  have l2: "load L None (fresh_world (files ?w1)) =
      (None, fold store_member members (fresh_world (files ?w1)))"
    using f u fp by (simp add: load_def os_ReadFile_def fresh_world_def)
  have 3: "snapshot (snd (load L None ?w1)) = snapshot w"
    using l snap [of ?w1] by simp
  have 4: "snapshot (main_init L None (files ?w1)) = snapshot w"
    using l2 snap [of "fresh_world (files ?w1)"] by (simp add: main_init_def fresh_world_def)
  have 5: "logs (main_init L None (files ?w1)) = []"
    using l2 by (simp add: main_init_def fresh_world_def)
  from s l 3 4 5 show ?thesis by simp
qed


theorem save_then_load_witness:
  "snapshot (snd (load example_lib None (snd (save example_lib WriteOk completed_world))))
     = snapshot completed_world
   \<and> snapshot (main_init example_lib None (files (snd (save example_lib WriteOk completed_world))))
     = snapshot completed_world
   \<and> snapshot completed_world = [''a.mp4'' \<mapsto> Some example_record]
   \<and> snapshot (main_init example_lib None (files (snd (save example_lib WriteOk empty_world))))
     = snapshot empty_world
   \<and> snapshot empty_world = Map.empty"
proof -
  have sc: "snapshot completed_world = [''a.mp4'' \<mapsto> Some example_record]"
    by (rule ext) (simp add: completed_world_def transcode_def set_status_def eval_defs
          example_record_def)
  have se: "snapshot empty_world = Map.empty"
    by (rule ext) (simp add: eval_defs)
  have m1: "Marshal example_lib (snapshot completed_world) = Inr ''a.mp4 completed''"
    by (simp add: sc example_lib_def example_record_def)
  have u1: "Unmarshal example_lib ''a.mp4 completed'' = (None, Members [(''a.mp4'', Some example_record)])"
    by (simp add: example_lib_def example_record_def)
  have rt1: "map_of (rev [(''a.mp4'', Some example_record)]) = snapshot completed_world"
    by (rule ext) (simp add: sc)
  have fp1: "filePath completed_world = ''transcode_mappings.json''"
    by (simp add: completed_world_def transcode_def set_status_def eval_defs)
  have m2: "Marshal example_lib (snapshot empty_world) = Inr ''empty''"
    by (simp add: se example_lib_def)
  have u2: "Unmarshal example_lib ''empty'' = (None, Members [])"
    by (simp add: example_lib_def)
  have rt2: "map_of (rev []) = snapshot empty_world"
    by (simp add: se)
  have fp2: "filePath empty_world = ''transcode_mappings.json''"
    by (simp add: eval_defs)
  from save_then_load [OF m1 u1 rt1 fp1] save_then_load [OF m2 u2 rt2 fp2] sc se
  show ?thesis by simp
qed

section \<open>Two submissions at once\<close>

text \<open>
  C3. The handler looks the key up in one read section (lines 177-179) and stores the
  new record in a later write section (lines 204-211); the lock is free in between.
  When two submissions of \<^verbatim>\<open>a.mp4\<close> both pass the read section before either stores its
  record, neither sees a \<open>processing\<close> record: both are answered "Transcoding started",
  two records are allocated and two runners for \<^verbatim>\<open>a.mp4\<close> are active at once. So the
  check-then-create gating does not keep the runners of one video down to one.
\<close>

theorem two_submissions_two_runners:
  "map_option threads (run example_lib two_submissions example_boot) =
     Some [Done (JsonOK [(''message'', ''Transcoding started''), (''transcode_dir'', ''a''),
                         (''status'', ''processing'')]),
           Done (JsonOK [(''message'', ''Transcoding started''), (''transcode_dir'', ''a''),
                         (''status'', ''processing'')]),
           TR_start ''a.mp4'', TR_start ''a.mp4'']
   \<and> map_option (\<lambda>s. active_runners s ''a.mp4'') (run example_lib two_submissions example_boot) = Some 2
   \<and> map_option (\<lambda>s. heap (shared s)) (run example_lib two_submissions example_boot) =
     Some [\<lparr>OriginalName = ''a.mp4'', TranscodeDir = ''a'', Status = ''processing''\<rparr>,
           \<lparr>OriginalName = ''a.mp4'', TranscodeDir = ''a'', Status = ''processing''\<rparr>]"
  by code_simp

section \<open>What every step keeps\<close>

lemma keeps_records_refl: "keeps_records w w"
  by (simp add: keeps_records_def)

lemma keeps_records_trans:
  assumes "keeps_records w1 w2" and "keeps_records w2 w3"
  shows "keeps_records w1 w3"
  unfolding keeps_records_def
proof (intro conjI allI impI)
  show "length (heap w1) \<le> length (heap w3)"
    using assms by (simp add: keeps_records_def)
next
  fix a assume a: "a < length (heap w1)"
  then have a2: "a < length (heap w2)" using assms(1) by (simp add: keeps_records_def)
  from assms(1) a have 1: "OriginalName (heap w2 ! a) = OriginalName (heap w1 ! a)"
    "TranscodeDir (heap w2 ! a) = TranscodeDir (heap w1 ! a)"
    "Status (heap w2 ! a) = Status (heap w1 ! a) \<or> Status (heap w2 ! a) = ''completed''
       \<or> Status (heap w2 ! a) = ''failed''"
    by (simp_all add: keeps_records_def)
  from assms(2) a2 have 2: "OriginalName (heap w3 ! a) = OriginalName (heap w2 ! a)"
    "TranscodeDir (heap w3 ! a) = TranscodeDir (heap w2 ! a)"
    "Status (heap w3 ! a) = Status (heap w2 ! a) \<or> Status (heap w3 ! a) = ''completed''
       \<or> Status (heap w3 ! a) = ''failed''"
    by (simp_all add: keeps_records_def)
  from 1 2 show "OriginalName (heap w3 ! a) = OriginalName (heap w1 ! a)" by simp
  from 1 2 show "TranscodeDir (heap w3 ! a) = TranscodeDir (heap w1 ! a)" by simp
  from 1 2 show "Status (heap w3 ! a) = Status (heap w1 ! a) \<or> Status (heap w3 ! a) = ''completed''
       \<or> Status (heap w3 ! a) = ''failed''" by auto
next
  fix k assume "mappings w1 k \<noteq> None"
  with assms show "mappings w3 k \<noteq> None" by (simp add: keeps_records_def)
qed

lemma keeps_records_put_new: "keeps_records w (put_new k v w)"
  by (simp add: keeps_records_def put_new_def nth_append)

lemma keeps_records_save: "keeps_records w (snd (save L wo w))"
  by (simp add: keeps_records_def)

lemma keeps_records_set_status:
  "st = ''completed'' \<or> st = ''failed'' \<Longrightarrow> keeps_records w (set_status a st w)"
  by (cases "a < length (heap w)")
     (auto simp: keeps_records_def set_status_def nth_list_update)

lemma keeps_records_same:
  "heap w' = heap w \<Longrightarrow> mappings w' = mappings w \<Longrightarrow> keeps_records w w'"
  by (simp add: keeps_records_def)

lemma step_keeps_records:
  "step_thread L orc w t = Some (w', t', new) \<Longrightarrow> keeps_records w w'"
proof (cases t)
  case (HT_put k)
  assume "step_thread L orc w t = Some (w', t', new)"
  with HT_put show ?thesis
    using keeps_records_put_new keeps_records_refl by (auto split: if_splits)
next
  case (TR_update k enc)
  assume s: "step_thread L orc w t = Some (w', t', new)"
  let ?w1 = "w\<lparr>logs := logs w @ [case snd enc of
                                       Some err \<Rightarrow> LogFailed k err (fst enc)
                                     | None \<Rightarrow> LogCompleted k]\<rparr>"
  have a: "keeps_records w ?w1" by (rule keeps_records_same) simp_all
  have b: "keeps_records ?w1 (set_status a (if snd enc = None then ''completed'' else ''failed'') ?w1)" for a
    by (rule keeps_records_set_status) simp
  have c: "keeps_records w (?w1\<lparr>mu_held := False\<rparr>)" by (rule keeps_records_same) simp_all
  from s TR_update show ?thesis
    using keeps_records_trans [OF a b] c
    by (auto simp: Let_def split: option.splits)
qed (auto simp: keeps_records_refl keeps_records_save keeps_records_same Let_def
          split: option.splits if_splits)

lemma exec_keeps_records:
  "exec L e s = Some s' \<Longrightarrow> keeps_records (shared s) (shared s')"
  by (cases e) (auto simp: keeps_records_refl step_keeps_records split: if_splits option.splits)

lemma run_keeps_records:
  "run L evs s = Some s' \<Longrightarrow> keeps_records (shared s) (shared s')"
proof (induction evs arbitrary: s)
  case Nil
  then show ?case by (simp add: keeps_records_refl)
next
  case (Cons e es)
  from Cons.prems obtain s1 where 1: "exec L e s = Some s1" and 2: "run L es s1 = Some s'"
    by (auto split: option.splits)
  from exec_keeps_records [OF 1] Cons.IH [OF 2] show ?case by (rule keeps_records_trans)
qed

lemma step_changes_object:
  "step_thread L orc w t = Some (w', t', new) \<Longrightarrow> a < length (heap w) \<Longrightarrow>
   heap w' ! a \<noteq> heap w ! a \<Longrightarrow> \<exists>k enc. t = TR_update k enc"
  by (cases t) (auto simp: put_new_def nth_append Let_def split: option.splits if_splits)

section \<open>The entry a runner writes through\<close>

lemma has_entry_put_new: "has_entry w k \<Longrightarrow> has_entry (put_new k' v w) k"
  by (auto simp: has_entry_def put_new_def split: option.splits)

lemma has_entry_put_new_same: "has_entry (put_new k v w) k"
  by (simp add: has_entry_def put_new_def)

lemma has_entry_save: "has_entry (snd (save L wo w)) k = has_entry w k"
  by (simp add: has_entry_def split: option.splits)

lemma has_entry_set_status: "has_entry (set_status a st w) k = has_entry w k"
  by (simp add: has_entry_def set_status_def split: option.splits)

lemma has_entry_mu_held: "has_entry (w\<lparr>mu_held := b\<rparr>) k = has_entry w k"
  by (simp add: has_entry_def split: option.splits)

lemma has_entry_logs: "has_entry (w\<lparr>logs := l\<rparr>) k = has_entry w k"
  by (simp add: has_entry_def split: option.splits)

lemmas has_entry_simps = has_entry_save has_entry_set_status has_entry_mu_held has_entry_logs

lemma step_has_entry:
  "step_thread L orc w t = Some (w', t', new) \<Longrightarrow> has_entry w k \<Longrightarrow> has_entry w' k"
  by (cases t)
     (auto simp: has_entry_put_new has_entry_simps Let_def split: option.splits if_splits)

lemma step_other_thread_ok:
  "step_thread L orc w t = Some (w', t', new) \<Longrightarrow> thread_ok w u \<Longrightarrow> thread_ok w' u"
  by (auto simp: thread_ok_def step_has_entry split: option.splits)

lemma has_entry_pointer:
  "has_entry w k \<Longrightarrow> \<exists>a. mappings w k = Some (Some a) \<and> a < length (heap w)"
  by (auto simp: has_entry_def split: option.splits)

lemma step_thread_ok:
  "step_thread L orc w t = Some (w', t', new) \<Longrightarrow> thread_ok w t \<Longrightarrow>
   thread_ok w' t' \<and> list_all (thread_ok w') new"
proof (cases t)
  case (TR_update k enc)
  assume s: "step_thread L orc w t = Some (w', t', new)" and ok: "thread_ok w t"
  from ok TR_update have "has_entry w k" by (simp add: thread_ok_def)
  then obtain a where "mappings w k = Some (Some a)" using has_entry_pointer by blast
  with s TR_update show ?thesis by (auto simp: thread_ok_def Let_def)
next
  case (HT_put k)
  assume "step_thread L orc w t = Some (w', t', new)"
  with HT_put show ?thesis
    by (auto simp: thread_ok_def has_entry_put_new_same split: if_splits)
qed (auto simp: thread_ok_def has_entry_simps Let_def split: option.splits if_splits)

lemma exec_all_ok:
  assumes "exec L e s = Some s'" and "all_ok s"
  shows "all_ok s'"
proof (cases e)
  case (Submit r)
  with assms show ?thesis by (auto simp: all_ok_def thread_ok_def)
next
  case (Query r)
  with assms show ?thesis by (auto simp: all_ok_def thread_ok_def)
next
  case (Step i orc)
  with assms obtain w' t' new where i: "i < length (threads s)"
    and st: "step_thread L orc (shared s) (threads s ! i) = Some (w', t', new)"
    and s': "s' = \<lparr>shared = w', threads = (threads s)[i := t'] @ new\<rparr>"
    by (auto split: if_splits option.splits)
  from assms(2) i have ti: "thread_ok (shared s) (threads s ! i)"
    by (simp add: all_ok_def list_all_length)
  from step_thread_ok [OF st ti] have new: "thread_ok w' t'" "list_all (thread_ok w') new"
    by simp_all
  have others: "thread_ok w' u" if "u \<in> set (threads s)" for u
    using that assms(2) step_other_thread_ok [OF st] by (auto simp: all_ok_def list_all_iff)
  have "thread_ok w' u" if "u \<in> set ((threads s)[i := t'])" for u
    using that others new(1) set_update_subset_insert [of "threads s" i t'] by auto
  with new(2) s' show ?thesis by (auto simp: all_ok_def list_all_iff)
qed

lemma run_all_ok:
  "run L evs s = Some s' \<Longrightarrow> all_ok s \<Longrightarrow> all_ok s'"
proof (induction evs arbitrary: s)
  case Nil
  then show ?case by simp
next
  case (Cons e es)
  from Cons.prems(1) obtain s1 where 1: "exec L e s = Some s1" and 2: "run L es s1 = Some s'"
    by (auto split: option.splits)
  from exec_all_ok [OF 1 Cons.prems(2)] Cons.IH [OF 2] show ?case by simp
qed

lemma transcode_panics_iff:
  "transcode L enc wo k w = None \<longleftrightarrow> mappings w k = None \<or> mappings w k = Some None"
  by (auto simp: transcode_def Let_def split: option.splits)

lemma run_append:
  "run L (xs @ ys) s = (case run L xs s of None \<Rightarrow> None | Some s1 \<Rightarrow> run L ys s1)"
  by (induction xs arbitrary: s) (auto split: option.splits)

text \<open>
  C9. The runner's status write (lines 286 and 289) indexes the map by the video name and
  writes through the result without a check: run on a state whose key is absent or
  holds nil, it panics. In every state the process reaches from start-up, under any
  arrivals of requests and any interleaving of steps, no runner has panicked, and every
  runner that has not yet done its write finds under its video name a pointer to an
  object: the handler stored the record before it started the runner, and no step
  removes an entry.
\<close>

theorem runner_entry_present:
  assumes "run L evs (boot L fault disk) = Some s"
  shows "(transcode L enc wo k (shared s) = None \<longleftrightarrow>
            mappings (shared s) k = None \<or> mappings (shared s) k = Some None)
    \<and> Crashed \<notin> set (threads s)
    \<and> (\<forall>t \<in> set (threads s). \<forall>k. runner_name t = Some k \<and> t \<noteq> TR_save k \<and> t \<noteq> TR_unlock k \<longrightarrow>
          (\<exists>a. mappings (shared s) k = Some (Some a) \<and> a < length (heap (shared s))))"
proof -
  have "all_ok (boot L fault disk)" by (simp add: all_ok_def boot_def)
  with assms have ok: "all_ok s" by (rule run_all_ok)
  then have c: "Crashed \<notin> set (threads s)"
    by (auto simp: all_ok_def list_all_iff thread_ok_def)
  have r: "\<exists>a. mappings (shared s) k = Some (Some a) \<and> a < length (heap (shared s))"
    if "t \<in> set (threads s)" "runner_name t = Some k" "t \<noteq> TR_save k" "t \<noteq> TR_unlock k" for t k
  proof -
    from ok that(1) have "thread_ok (shared s) t" by (simp add: all_ok_def list_all_iff)
    with that(2-4) show ?thesis
      by (cases t) (auto simp: thread_ok_def has_entry_def split: option.splits)
  qed
  from c r transcode_panics_iff show ?thesis by blast
qed


theorem runner_entry_present_witness:
  "\<exists>s. run example_lib (two_submissions @ first_runner_fails)
           (boot example_lib None Map.empty) = Some s
       \<and> threads s ! 2 = Finished
       \<and> threads s ! 3 = TR_start ''a.mp4''
       \<and> Crashed \<notin> set (threads s)
       \<and> mappings (shared s) ''a.mp4'' = Some (Some 1)
       \<and> length (heap (shared s)) = 2"
proof -
  have "map_option (\<lambda>s. (threads s ! 2, threads s ! 3, mappings (shared s) ''a.mp4'',
                         length (heap (shared s))))
          (run example_lib (two_submissions @ first_runner_fails) (boot example_lib None Map.empty))
        = Some (Finished, TR_start ''a.mp4'', Some (Some 1), 2)"
    by code_simp
  then obtain s where r: "run example_lib (two_submissions @ first_runner_fails)
           (boot example_lib None Map.empty) = Some s"
    and v: "threads s ! 2 = Finished" "threads s ! 3 = TR_start ''a.mp4''"
       "mappings (shared s) ''a.mp4'' = Some (Some 1)" "length (heap (shared s)) = 2"
    by auto
  from runner_entry_present [OF r] have "Crashed \<notin> set (threads s)" by blast
  with r v show ?thesis by blast
qed

section \<open>The life of a record\<close>

text \<open>
  The status of a record is not always written exactly once. After the two overlapping
  submissions of \<^verbatim>\<open>a.mp4\<close>, both runners write the record the map points to: the first
  takes it from \<open>processing\<close> to \<open>failed\<close>, the second from \<open>failed\<close> to \<open>completed\<close>, and
  the record the first submission stored is never written. And a record that a new
  process loads as \<open>processing\<close> has no runner, and the handler starts none for it.
\<close>

theorem status_written_twice_or_never:
  "map_option (\<lambda>s. map Status (heap (shared s)))
     (run example_lib two_submissions example_boot) = Some [''processing'', ''processing'']
   \<and> map_option (\<lambda>s. map Status (heap (shared s)))
     (run example_lib (two_submissions @ first_runner_fails) example_boot)
       = Some [''processing'', ''failed'']
   \<and> map_option (\<lambda>s. map Status (heap (shared s)))
     (run example_lib (two_submissions @ first_runner_fails @ second_runner_succeeds) example_boot)
       = Some [''processing'', ''completed'']
   \<and> map_option (\<lambda>s. mappings (shared s) ''a.mp4'')
     (run example_lib (two_submissions @ first_runner_fails @ second_runner_succeeds) example_boot)
       = Some (Some (Some 1))
   \<and> record_of (main_init example_lib None interrupted_disk) ''a.mp4''
       = Some \<lparr>OriginalName = ''a.mp4'', TranscodeDir = ''a'', Status = ''processing''\<rparr>
   \<and> threads (boot example_lib None interrupted_disk) = []
   \<and> fst (handleTranscode example_lib stat_found WriteOk post_a
             (main_init example_lib None interrupted_disk))
       = JsonOK [(''message'', ''Video is currently being transcoded''),
                 (''status'', ''processing'')]
   \<and> snd (snd (handleTranscode example_lib stat_found WriteOk post_a
                  (main_init example_lib None interrupted_disk))) = []"
proof -
  have 1: "map_option (\<lambda>s. map Status (heap (shared s)))
     (run example_lib two_submissions example_boot) = Some [''processing'', ''processing'']"
    by code_simp
  have 2: "map_option (\<lambda>s. map Status (heap (shared s)))
     (run example_lib (two_submissions @ first_runner_fails) example_boot)
       = Some [''processing'', ''failed'']"
    by code_simp
  have 3: "map_option (\<lambda>s. map Status (heap (shared s)))
     (run example_lib (two_submissions @ first_runner_fails @ second_runner_succeeds) example_boot)
       = Some [''processing'', ''completed'']"
    by code_simp
  have 4: "map_option (\<lambda>s. mappings (shared s) ''a.mp4'')
     (run example_lib (two_submissions @ first_runner_fails @ second_runner_succeeds) example_boot)
       = Some (Some (Some 1))"
    by code_simp
  have 5: "record_of (main_init example_lib None interrupted_disk) ''a.mp4''
       = Some \<lparr>OriginalName = ''a.mp4'', TranscodeDir = ''a'', Status = ''processing''\<rparr>"
    by code_simp
  have 6: "threads (boot example_lib None interrupted_disk) = []"
    by (simp add: boot_def)
  have 7: "fst (handleTranscode example_lib stat_found WriteOk post_a
             (main_init example_lib None interrupted_disk))
       = JsonOK [(''message'', ''Video is currently being transcoded''),
                 (''status'', ''processing'')]"
    by code_simp
  have 8: "snd (snd (handleTranscode example_lib stat_found WriteOk post_a
                  (main_init example_lib None interrupted_disk))) = []"
    by code_simp
  from 1 2 3 4 5 6 7 8 show ?thesis by blast
qed

text \<open>
  C8, as the code has it. Over any arrivals of requests and any interleaving of steps,
  from any state: every record keeps its \<open>original_name\<close> and its \<open>transcode_dir\<close>; its
  status either stays or becomes \<open>completed\<close> or \<open>failed\<close>; no key is removed from the
  registry (a later accepted submission stores a fresh record under the key); and the
  only step that changes an existing record is the runner's status write.
\<close>

theorem records_keep_identity:
  assumes "run L evs s = Some s'"
  shows "length (heap (shared s)) \<le> length (heap (shared s'))
    \<and> (\<forall>a < length (heap (shared s)).
          OriginalName (heap (shared s') ! a) = OriginalName (heap (shared s) ! a)
          \<and> TranscodeDir (heap (shared s') ! a) = TranscodeDir (heap (shared s) ! a)
          \<and> (Status (heap (shared s') ! a) = Status (heap (shared s) ! a)
               \<or> Status (heap (shared s') ! a) = ''completed''
               \<or> Status (heap (shared s') ! a) = ''failed''))
    \<and> (\<forall>k. mappings (shared s) k \<noteq> None \<longrightarrow> mappings (shared s') k \<noteq> None)
    \<and> (\<forall>orc w t w' t' new a.
          step_thread L orc w t = Some (w', t', new) \<and> a < length (heap w) \<and>
          heap w' ! a \<noteq> heap w ! a \<longrightarrow> (\<exists>k enc. t = TR_update k enc))"
proof -
  from assms have "keeps_records (shared s) (shared s')" by (rule run_keeps_records)
  then have 1: "length (heap (shared s)) \<le> length (heap (shared s'))
    \<and> (\<forall>a < length (heap (shared s)).
          OriginalName (heap (shared s') ! a) = OriginalName (heap (shared s) ! a)
          \<and> TranscodeDir (heap (shared s') ! a) = TranscodeDir (heap (shared s) ! a)
          \<and> (Status (heap (shared s') ! a) = Status (heap (shared s) ! a)
               \<or> Status (heap (shared s') ! a) = ''completed''
               \<or> Status (heap (shared s') ! a) = ''failed''))
    \<and> (\<forall>k. mappings (shared s) k \<noteq> None \<longrightarrow> mappings (shared s') k \<noteq> None)"
    unfolding keeps_records_def .
  have 2: "\<forall>orc w t w' t' new a.
          step_thread L orc w t = Some (w', t', new) \<and> a < length (heap w) \<and>
          heap w' ! a \<noteq> heap w ! a \<longrightarrow> (\<exists>k enc. t = TR_update k enc)"
    using step_changes_object by blast
  from 1 2 show ?thesis by blast
qed

theorem records_keep_identity_witness:
  "\<exists>s s'. run example_lib two_submissions example_boot = Some s
       \<and> run example_lib first_runner_fails s = Some s'
       \<and> length (heap (shared s)) = 2
       \<and> OriginalName (heap (shared s') ! 1) = OriginalName (heap (shared s) ! 1)
       \<and> TranscodeDir (heap (shared s') ! 1) = TranscodeDir (heap (shared s) ! 1)
       \<and> Status (heap (shared s) ! 1) = ''processing''
       \<and> Status (heap (shared s') ! 1) = ''failed''
       \<and> mappings (shared s) ''a.mp4'' = Some (Some 1)
       \<and> mappings (shared s') ''a.mp4'' \<noteq> None"
proof -
  have "map_option (\<lambda>s. (length (heap (shared s)), Status (heap (shared s) ! 1),
                         mappings (shared s) ''a.mp4''))
          (run example_lib two_submissions example_boot) = Some (2, ''processing'', Some (Some 1))"
    by code_simp
  then obtain s where r1: "run example_lib two_submissions example_boot = Some s"
    and v1: "length (heap (shared s)) = 2" "Status (heap (shared s) ! 1) = ''processing''"
      "mappings (shared s) ''a.mp4'' = Some (Some 1)"
    by auto
  have "map_option (\<lambda>s. Status (heap (shared s) ! 1))
          (run example_lib (two_submissions @ first_runner_fails) example_boot) = Some ''failed''"
    by code_simp
  with r1 obtain s' where r2: "run example_lib first_runner_fails s = Some s'"
    and v2: "Status (heap (shared s') ! 1) = ''failed''"
    by (auto simp: run_append)
  from records_keep_identity [OF r2] v1
  have "OriginalName (heap (shared s') ! 1) = OriginalName (heap (shared s) ! 1)"
    "TranscodeDir (heap (shared s') ! 1) = TranscodeDir (heap (shared s) ! 1)"
    "mappings (shared s') ''a.mp4'' \<noteq> None"
    by simp_all
  with r1 r2 v1 v2 show ?thesis by blast
qed

section \<open>The runner's status write and its readers\<close>

lemma transcode_sets_status:
  assumes "mappings w k = Some (Some a)" and "a < length (heap w)"
  shows "\<exists>w'. transcode L enc wo k w = Some w'
     \<and> mappings w' = mappings w
     \<and> heap w' = (heap w)[a := (heap w ! a)\<lparr>Status := (if snd enc = None then ''completed'' else ''failed'')\<rparr>]
     \<and> record_of w' k = Some ((heap w ! a)\<lparr>Status := (if snd enc = None then ''completed'' else ''failed'')\<rparr>)"
  using assms
  by (auto simp: transcode_def set_status_def record_of_def deref_def Let_def split: option.splits)

lemma filter_update_count:
  "i < length xs \<Longrightarrow>
   length (filter P (xs[i := y])) + (if P (xs ! i) then 1 else 0)
     = length (filter P xs) + (if P y then 1 else 0)"
proof (induction xs arbitrary: i)
  case Nil
  then show ?case by simp
next
  case (Cons x xs)
  show ?case
  proof (cases i)
    case 0
    then show ?thesis by simp
  next
    case (Suc j)
    with Cons.prems have "j < length xs" by simp
    from Cons.IH [OF this] Suc show ?thesis by simp
  qed
qed

lemma step_lock_balance:
  assumes "step_thread L orc w t = Some (w', t', new)"
    and "in_write_section t \<Longrightarrow> mu_held w"
  shows "(if mu_held w' then 1 else 0) + (if in_write_section t then 1 else 0)
       = (if mu_held w then 1 else 0) + (if in_write_section t' then 1 else (0::nat))
     \<and> filter in_write_section new = []"
  using assms
  by (cases t) (auto simp: Let_def split: option.splits if_splits)

lemma load_mu_held: "mu_held (snd (load L fault w)) = mu_held w"
  by (simp add: load_def split: sum.splits prod.splits decoded.splits)

lemma main_init_unlocked: "\<not> mu_held (main_init L fault disk)"
proof -
  obtain err w1 where l: "load L fault (fresh_world disk) = (err, w1)"
    by (cases "load L fault (fresh_world disk)")
  with load_mu_held [of L fault "fresh_world disk"] have "\<not> mu_held w1"
    by (simp add: fresh_world_def)
  with l show ?thesis by (cases err) (simp_all add: main_init_def)
qed

lemma exec_writers:
  assumes e: "exec L e s = Some s'"
    and inv: "writers s = (if mu_held (shared s) then 1 else 0)"
  shows "writers s' = (if mu_held (shared s') then 1 else 0)"
proof (cases e)
  case (Submit r)
  with e inv show ?thesis by (auto simp: writers_def)
next
  case (Query r)
  with e inv show ?thesis by (auto simp: writers_def)
next
  case (Step i orc)
  with e obtain w' t' new where i: "i < length (threads s)"
    and st: "step_thread L orc (shared s) (threads s ! i) = Some (w', t', new)"
    and s': "s' = \<lparr>shared = w', threads = (threads s)[i := t'] @ new\<rparr>"
    by (auto split: if_splits option.splits)
  have held: "mu_held (shared s)" if "in_write_section (threads s ! i)"
  proof (rule ccontr)
    assume "\<not> mu_held (shared s)"
    with inv have "filter in_write_section (threads s) = []" by (simp add: writers_def)
    with i that show False by (metis filter_empty_conv nth_mem)
  qed
  from step_lock_balance [OF st held]
  have b: "(if mu_held w' then 1 else 0) + (if in_write_section (threads s ! i) then 1 else 0)
       = (if mu_held (shared s) then 1 else 0) + (if in_write_section t' then 1 else (0::nat))"
    and n: "filter in_write_section new = []" by simp_all
  from filter_update_count [OF i, of in_write_section t']
  have c: "length (filter in_write_section ((threads s)[i := t']))
      + (if in_write_section (threads s ! i) then 1 else 0)
     = length (filter in_write_section (threads s)) + (if in_write_section t' then 1 else 0)" .
  from b c inv n s' show ?thesis by (simp add: writers_def split: if_splits)
qed

lemma run_writers:
  "run L evs s = Some s' \<Longrightarrow> writers s = (if mu_held (shared s) then 1 else 0) \<Longrightarrow>
   writers s' = (if mu_held (shared s') then 1 else 0)"
proof (induction evs arbitrary: s)
  case Nil
  then show ?case by simp
next
  case (Cons e es)
  from Cons.prems(1) obtain s1 where 1: "exec L e s = Some s1" and 2: "run L es s1 = Some s'"
    by (auto split: option.splits)
  from exec_writers [OF 1 Cons.prems(2)] Cons.IH [OF 2] show ?case by simp
qed

lemma write_sections_exclusive:
  "run L evs (boot L fault disk) = Some s \<Longrightarrow>
   writers s = (if mu_held (shared s) then 1 else 0)"
proof (rule run_writers)
  assume "run L evs (boot L fault disk) = Some s"
  then show "run L evs (boot L fault disk) = Some s" .
next
  show "writers (boot L fault disk) = (if mu_held (shared (boot L fault disk)) then 1 else 0)"
    by (simp add: boot_def writers_def main_init_unlocked)
qed

lemma lock_steps_blocked:
  "mu_held w \<Longrightarrow> step_thread L orc w (HT_read k) = None \<and> step_thread L orc w (HS_read k) = None
     \<and> step_thread L orc w (HT_lock k) = None \<and> step_thread L orc w (TR_lock k enc) = None"
  by simp

text \<open>
  C2. The runner takes the status from the encoder's error alone
  (\<open>transcode_sets_status\<close>), and writes it and calls \<^verbatim>\<open>save\<close> inside one write section,
  which no other lock section overlaps (\<open>write_sections_exclusive\<close>,
  \<open>lock_steps_blocked\<close>). The status handler, however, reads the record's fields
  through the pointer after it has released the read lock (lines 233-249). In the
  schedule below the query takes the pointer out of the map before the runner locks;
  the runner writes \<open>completed\<close>; the query then reads the fields and answers
  \<open>completed\<close> with the stream locator, while the runner still holds the lock, has not
  yet called \<^verbatim>\<open>save\<close> and the state file still says \<open>processing\<close>. So a reader does
  observe the state between the in-memory update and the durable write.
\<close>

theorem query_sees_unsaved_status:
  "map_option threads (run example_lib query_during_update example_boot) =
     Some [Done (JsonOK [(''message'', ''Transcoding started''), (''transcode_dir'', ''a''),
                         (''status'', ''processing'')]),
           TR_save ''a.mp4'',
           Done (JsonOK [(''video'', ''a.mp4''), (''transcode_dir'', ''a''),
                         (''status'', ''completed''),
                         (''stream_url'', ''/hls/a/master.m3u8'')])]
   \<and> map_option (\<lambda>s. mu_held (shared s)) (run example_lib query_during_update example_boot)
       = Some True
   \<and> map_option (\<lambda>s. files (shared s) ''transcode_mappings.json'')
        (run example_lib query_during_update example_boot)
       = Some (Some ''a.mp4 processing'')"
  by code_simp

end
